theory Spec2Isabelle
  imports Complex_Main "HOL-Library.Word"
begin

unbundle bit_operations_syntax

section \<open>Path codec: \<open>decodePolyline\<close> (generate-route/index.ts)\<close>

text \<open>
  A JavaScript string is a sequence of UTF-16 code units. \<open>charCodeAt\<close> returns the code
  unit at an index, and \<open>NaN\<close> when the index is past the end; \<open>None\<close> stands for \<open>NaN\<close>.
  The bit operators \<open>|\<close>, \<open>&\<close>, \<open><<\<close>, \<open>>>\<close> and \<open>~\<close> of the source work on 32-bit
  two's complement integers, so \<open>result\<close> is a \<open>32 word\<close>; \<open><<\<close> uses its right operand
  modulo 32. The accumulators \<open>lat\<close> and \<open>lng\<close> are sums of such deltas and are kept as
  unbounded integers; the final division by \<open>1e5\<close> is taken over the reals.
\<close>

type_synonym js_string = "16 word list"

definition str :: "string \<Rightarrow> js_string" where
  "str s = map of_char s"

definition charCodeAt :: "js_string \<Rightarrow> nat \<Rightarrow> int option" where
  "charCodeAt s i = (if i < length s then Some (uint (s ! i)) else None)"

text \<open>
  The inner \<open>do { ... } while (b >= 0x20)\<close> loop. With \<open>b = NaN\<close> the update
  \<open>result |= (b & 0x1f) << shift\<close> leaves \<open>result\<close> unchanged and \<open>b >= 0x20\<close> is false.
  The function returns the index after the loop and the accumulated \<open>result\<close>.
\<close>

function readDelta :: "js_string \<Rightarrow> nat \<Rightarrow> nat \<Rightarrow> 32 word \<Rightarrow> nat \<times> 32 word" where
  "readDelta encoded index shift result =
     (case charCodeAt encoded index of
        None \<Rightarrow> (index + 1, result)
      | Some c \<Rightarrow>
          (let b = c - 63;
               result' = result OR push_bit (shift mod 32) (word_of_int (b AND 0x1f))
           in if b \<ge> 0x20 then readDelta encoded (index + 1) (shift + 5) result'
              else (index + 1, result')))"
  by pat_completeness auto
termination
  by (relation "measure (\<lambda>(e, i, s, r). length e - i)")
     (auto simp: charCodeAt_def split: if_splits)

declare readDelta.simps [simp del]

text \<open>\<open>(result & 1) !== 0 ? ~(result >> 1) : (result >> 1)\<close>, read as a signed integer.\<close>

definition unzigzag :: "32 word \<Rightarrow> int" where
  "unzigzag result =
     sint (if result AND 1 \<noteq> 0 then NOT (signed_drop_bit 1 result)
           else signed_drop_bit 1 result)"

text \<open>One pass through the body of the outer \<open>while\<close> loop: two deltas are read.\<close>

definition decodeStep :: "js_string \<Rightarrow> nat \<times> int \<times> int \<Rightarrow> nat \<times> int \<times> int" where
  "decodeStep encoded = (\<lambda>(index, lat, lng).
     (let (index1, result1) = readDelta encoded index 0 0;
          lat' = lat + unzigzag result1;
          (index2, result2) = readDelta encoded index1 0 0;
          lng' = lng + unzigzag result2
      in (index2, lat', lng')))"

lemma readDelta_index: "index < fst (readDelta encoded index shift result)"
proof (induction encoded index shift result rule: readDelta.induct)
  case (1 encoded index shift result)
  show ?case
  proof (cases "charCodeAt encoded index")
    case None
    then show ?thesis by (subst readDelta.simps) simp
  next
    case (Some c)
    show ?thesis
    proof (cases "c - 63 \<ge> 0x20")
      case True
      from "1.IH"[OF Some refl refl True]
      have "index + 1 < fst (readDelta encoded (index + 1) (shift + 5)
              (result OR push_bit (shift mod 32) (word_of_int ((c - 63) AND 0x1f))))" .
      then show ?thesis using Some True by (subst readDelta.simps) (simp add: Let_def)
    next
      case False
      then show ?thesis using Some by (subst readDelta.simps) (simp add: Let_def)
    qed
  qed
qed

lemma decodeStep_index: "index + 2 \<le> fst (decodeStep encoded (index, lat, lng))"
proof -
  obtain i1 r1 where a: "readDelta encoded index 0 0 = (i1, r1)" by fastforce
  obtain i2 r2 where b: "readDelta encoded i1 0 0 = (i2, r2)" by fastforce
  have "index < i1" using readDelta_index[of index encoded 0 0] a by simp
  moreover have "i1 < i2" using readDelta_index[of i1 encoded 0 0] b by simp
  ultimately show ?thesis by (simp add: decodeStep_def a b)
qed

function decodeLoop ::
  "js_string \<Rightarrow> nat \<Rightarrow> int \<Rightarrow> int \<Rightarrow> (real \<times> real) list \<Rightarrow> (real \<times> real) list" where
  "decodeLoop encoded index lat lng coordinates =
     (if index < length encoded then
        (let (index', lat', lng') = decodeStep encoded (index, lat, lng)
         in decodeLoop encoded index' lat' lng'
              (coordinates @ [(real_of_int lat' / 100000, real_of_int lng' / 100000)]))
      else coordinates)"
  by pat_completeness auto
termination
proof (relation "measure (\<lambda>(e, i, la, ln, cs). length e - i)", goal_cases)
  case 1
  show ?case by simp
next
  case (2 encoded index lat lng coordinates x index' y lat' lng')
  have "index + 2 \<le> index'"
    using decodeStep_index[of index encoded lat lng] 2(2,3) by (metis fst_conv)
  then show ?case using 2(1) by simp
qed

declare decodeLoop.simps [simp del]

definition decodePolyline :: "js_string \<Rightarrow> (real \<times> real) list" where
  "decodePolyline encoded = decodeLoop encoded 0 0 0 []"

text \<open>
  An input ends in the middle of a delta when its last code unit still carries the
  continuation flag (\<open>b >= 0x20\<close>), so that the chunk closing the delta is missing.
\<close>

definition ends_mid_delta :: "js_string \<Rightarrow> bool" where
  "ends_mid_delta encoded = (encoded \<noteq> [] \<and> uint (last encoded) - 63 \<ge> 0x20)"

section \<open>POI scorer: \<open>calculatePOIScore\<close> (generate-route/index.ts)\<close>

text \<open>
  JavaScript numbers are taken as real numbers, and \<open>Math.log\<close> as the natural
  logarithm. \<open>Math.round\<close> rounds to the nearest integer, halves upwards. The local
  variables of \<open>calculatePOIScore\<close> are definitions of their own.
\<close>

definition js_round :: "real \<Rightarrow> int" where
  "js_round x = \<lfloor>x + 1 / 2\<rfloor>"

definition ratingScore :: "real \<Rightarrow> real" where
  "ratingScore googleRating = (if googleRating > 0 then (googleRating / 5.0) * 0.25 else 0)"

definition popularityScore :: "real \<Rightarrow> real" where
  "popularityScore reviewCount =
     (if reviewCount > 0 then min (ln reviewCount / ln 1000) 1.0 * 0.20 else 0)"

definition typeScore :: "string \<Rightarrow> real" where
  "typeScore poiType =
     (if poiType = ''tourist_attraction'' then 0.20
      else if poiType = ''museum'' then 0.18
      else if poiType = ''historical_site'' then 0.16
      else if poiType = ''landmark'' then 0.15
      else if poiType = ''park'' then 0.12
      else if poiType = ''restaurant'' then 0.10
      else 0.08)"

definition distanceScore :: "real \<Rightarrow> real" where
  "distanceScore distanceFromRoute =
     (if distanceFromRoute \<le> 500 then 0.10
      else if distanceFromRoute \<le> 1000 then 0.08
      else if distanceFromRoute \<le> 2000 then 0.05
      else 0.02)"

definition uniquenessScore :: real where
  "uniquenessScore = 0.15 * 0.5"

definition historicalScore :: real where
  "historicalScore = 0.10 * 0.5"

definition finalScore :: "real \<Rightarrow> real \<Rightarrow> string \<Rightarrow> real \<Rightarrow> real" where
  "finalScore googleRating reviewCount poiType distanceFromRoute =
     ratingScore googleRating + popularityScore reviewCount + typeScore poiType
       + distanceScore distanceFromRoute + uniquenessScore + historicalScore"

definition calculatePOIScore :: "real \<Rightarrow> real \<Rightarrow> string \<Rightarrow> real \<Rightarrow> int" where
  "calculatePOIScore googleRating reviewCount poiType distanceFromRoute =
     js_round (finalScore googleRating reviewCount poiType distanceFromRoute * 100)"

subsection \<open>The database routine \<open>calculate_poi_score\<close> (SQL)\<close>

text \<open>
  The first four SQL arguments may be \<open>NULL\<close> (\<open>None\<close>): a comparison with \<open>NULL\<close> is
  not true, so the \<open>IF\<close> falls through to its \<open>ELSE\<close>, and \<open>CASE\<close> takes its \<open>ELSE\<close>
  branch. The argument \<open>uniqueness_score\<close> has the default 5.
  \<open>ROUND(x, 2)\<close> on a \<open>DECIMAL\<close> rounds to two decimals, halves away from zero. The
  local variables \<open>rating_score\<close>, \<open>popularity_score\<close>, \<open>type_score\<close>,
  \<open>distance_score\<close> and \<open>final_score\<close> are definitions of their own.
\<close>

definition sql_round2 :: "real \<Rightarrow> real" where
  "sql_round2 x = sgn x * real_of_int \<lfloor>\<bar>x\<bar> * 100 + 1 / 2\<rfloor> / 100"

definition rating_score :: "real option \<Rightarrow> real" where
  "rating_score google_rating =
     (case google_rating of Some g \<Rightarrow> (g / 5.0) * 0.25 | None \<Rightarrow> 0)"

definition popularity_score_sql :: "int option \<Rightarrow> real" where
  "popularity_score_sql review_count =
     (case review_count of
        Some c \<Rightarrow> if c > 0 then min (ln (real_of_int c) / ln 1000) 1.0 * 0.20 else 0
      | None \<Rightarrow> 0)"

definition type_score :: "string option \<Rightarrow> real" where
  "type_score poi_type =
     (if poi_type = Some ''tourist_attraction'' then 0.20
      else if poi_type = Some ''museum'' then 0.18
      else if poi_type = Some ''historical_site'' then 0.16
      else if poi_type = Some ''landmark'' then 0.15
      else if poi_type = Some ''park'' then 0.12
      else if poi_type = Some ''restaurant'' then 0.10
      else 0.08)"

definition distance_score :: "real option \<Rightarrow> real" where
  "distance_score distance_from_route =
     (case distance_from_route of
        Some d \<Rightarrow> if d \<le> 500 then 0.10 else if d \<le> 1000 then 0.08
                  else if d \<le> 2000 then 0.05 else 0.02
      | None \<Rightarrow> 0.02)"

definition final_score ::
  "real option \<Rightarrow> int option \<Rightarrow> string option \<Rightarrow> real option \<Rightarrow> int \<Rightarrow> real" where
  "final_score google_rating review_count poi_type distance_from_route uniqueness_score =
     rating_score google_rating + popularity_score_sql review_count + type_score poi_type
       + distance_score distance_from_route
       + (real_of_int uniqueness_score / 10.0 * 0.15) + 0.10"

definition calculate_poi_score ::
  "real option \<Rightarrow> int option \<Rightarrow> string option \<Rightarrow> real option \<Rightarrow> int \<Rightarrow> real" where
  "calculate_poi_score google_rating review_count poi_type distance_from_route uniqueness_score =
     sql_round2 (final_score google_rating review_count poi_type distance_from_route
                   uniqueness_score * 100)"

section \<open>POI aggregator: \<open>discoverPOIsNearRoute\<close> (generate-route/index.ts)\<close>

text \<open>
  A \<open>place\<close> is one entry of \<open>data.results\<close> in a nearby-search response. Fields that
  may be absent are options; \<open>place.types?.[0]\<close> is the head of \<open>types\<close>, an absent
  list being the empty one. Places carry their \<open>geometry.location\<close>.
\<close>

record place =
  place_id :: string
  place_name :: string
  geometry_location :: "real \<times> real"
  types :: "string list"
  rating :: "real option"
  user_ratings_total :: "real option"

record poi =
  google_place_id :: string
  name :: string
  location :: "real \<times> real"
  poi_type :: string
  google_rating :: real
  review_count :: real
  popularity_score :: int
  route_coordinate_index :: nat

text \<open>\<open>x || 0\<close> for an optional number: absent and 0 both give 0.\<close>

definition or_zero :: "real option \<Rightarrow> real" where
  "or_zero v = (case v of None \<Rightarrow> 0 | Some x \<Rightarrow> x)"

text \<open>\<open>place.types?.[0] || dflt\<close>: an absent or empty first type gives the default.\<close>

definition first_type_or :: "place \<Rightarrow> string \<Rightarrow> string" where
  "first_type_or p dflt =
     (case types p of [] \<Rightarrow> dflt | t # _ \<Rightarrow> if t = [] then dflt else t)"

definition makePOI :: "nat \<Rightarrow> place \<Rightarrow> poi" where
  "makePOI i p =
     \<lparr> google_place_id = place_id p,
       name = place_name p,
       location = geometry_location p,
       poi_type = first_type_or p ''tourist_attraction'',
       google_rating = or_zero (rating p),
       review_count = or_zero (user_ratings_total p),
       popularity_score =
         calculatePOIScore (or_zero (rating p)) (or_zero (user_ratings_total p))
           (first_type_or p ''unknown'') 0,
       route_coordinate_index = i \<rparr>"

text \<open>
  The loop over \<open>data.results.slice(0, maxPOIsPerSearch)\<close>: a POI is pushed unless
  \<open>discoveredPOIs.find\<close> returns an entry with the same \<open>google_place_id\<close>.
\<close>

fun addPlaces :: "nat \<Rightarrow> place list \<Rightarrow> poi list \<Rightarrow> poi list" where
  "addPlaces i [] discoveredPOIs = discoveredPOIs"
| "addPlaces i (p # ps) discoveredPOIs =
     (let poi = makePOI i p in
      case find (\<lambda>q. google_place_id q = google_place_id poi) discoveredPOIs of
        None \<Rightarrow> addPlaces i ps (discoveredPOIs @ [poi])
      | Some existing \<Rightarrow> addPlaces i ps discoveredPOIs)"

definition maxPOIsPerSearch :: nat where
  "maxPOIsPerSearch = 10"

definition searchInterval :: "nat \<Rightarrow> nat" where
  "searchInterval n = max 1 (n div 5)"

text \<open>
  One pass of the \<open>for\<close> loop at index \<open>i\<close>. \<open>nearby i\<close> is the outcome of the
  request issued there: \<open>None\<close> when the request or the reading of its body throws
  (the \<open>catch\<close> logs and goes on), otherwise the list \<open>data.results\<close> (empty also
  when absent).
\<close>

definition searchAt :: "(nat \<Rightarrow> place list option) \<Rightarrow> nat \<Rightarrow> poi list \<Rightarrow> poi list" where
  "searchAt nearby i discoveredPOIs =
     (case nearby i of
        None \<Rightarrow> discoveredPOIs
      | Some results \<Rightarrow> addPlaces i (take maxPOIsPerSearch results) discoveredPOIs)"

function searchLoop ::
  "(nat \<Rightarrow> place list option) \<Rightarrow> nat \<Rightarrow> nat \<Rightarrow> poi list \<Rightarrow> poi list" where
  "searchLoop nearby n i discoveredPOIs =
     (if i < n then
        searchLoop nearby n (i + searchInterval n) (searchAt nearby i discoveredPOIs)
      else discoveredPOIs)"
  by pat_completeness auto
termination
  by (relation "measure (\<lambda>(nearby, n, i, ds). n - i)") (auto simp: searchInterval_def)

declare searchLoop.simps [simp del]

text \<open>
  The result is sorted by descending \<open>popularity_score\<close> (\<open>Array.prototype.sort\<close> is
  stable) and cut to 8 entries.
\<close>

definition discoverPOIsNearRoute ::
  "bool \<Rightarrow> (nat \<Rightarrow> place list option) \<Rightarrow> (real \<times> real) list \<Rightarrow> poi list" where
  "discoverPOIsNearRoute hasApiKey nearby coordinates =
     (if \<not> hasApiKey then []
      else take 8 (sort_key (\<lambda>p. - popularity_score p)
                     (searchLoop nearby (length coordinates) 0 [])))"

text \<open>
  For stating the properties: the identifiers that the pass at index \<open>i\<close> looks at, and
  the indices \<open>k\<close> that the loop visits when started at \<open>i\<close>.
\<close>

definition seen_at :: "(nat \<Rightarrow> place list option) \<Rightarrow> nat \<Rightarrow> string set" where
  "seen_at nearby i =
     (case nearby i of None \<Rightarrow> {} | Some results \<Rightarrow> place_id ` set (take maxPOIsPerSearch results))"

definition sample :: "nat \<Rightarrow> nat \<Rightarrow> nat \<Rightarrow> bool" where
  "sample n i k = (i \<le> k \<and> k < n \<and> searchInterval n dvd (k - i))"

text \<open>
  Example data: eight well-rated places and one poorly rated place \<open>dup\<close>, all returned
  at index 0, and \<open>dup\<close> returned again at every later index.
\<close>

definition top_place :: "string \<Rightarrow> place" where
  "top_place pid =
     \<lparr> place_id = pid, place_name = pid, geometry_location = (0, 0),
       types = [''tourist_attraction''], rating = Some 4.5, user_ratings_total = None \<rparr>"

definition dup_place :: place where
  "dup_place =
     \<lparr> place_id = ''dup'', place_name = ''dup'', geometry_location = (0, 0),
       types = [], rating = Some 0.5, user_ratings_total = None \<rparr>"

definition top_places :: "place list" where
  "top_places = map top_place [''p1'', ''p2'', ''p3'', ''p4'', ''p5'', ''p6'', ''p7'', ''p8'']"

definition crowded :: "nat \<Rightarrow> place list option" where
  "crowded k = (if k = 0 then Some (top_places @ [dup_place]) else Some [dup_place])"

section \<open>Location validation (route-status/index.ts and SQL \<open>is_location_on_route\<close>)\<close>

text \<open>
  PostGIS is not part of the repository. \<open>ST_DWithin(g1, g2, d)\<close> holds when the
  distance between the two geographies is at most \<open>d\<close> meters; the distance function is
  the parameter \<open>ST_Distance\<close>. A point is a (latitude, longitude) pair.
\<close>

type_synonym point = "real \<times> real"
type_synonym linestring = "point list"

definition ST_DWithin :: "(point \<Rightarrow> linestring \<Rightarrow> real) \<Rightarrow> point \<Rightarrow> linestring \<Rightarrow> real \<Rightarrow> bool" where
  "ST_DWithin ST_Distance g1 g2 distance_meters = (ST_Distance g1 g2 \<le> distance_meters)"

definition is_location_on_route ::
  "(point \<Rightarrow> linestring \<Rightarrow> real) \<Rightarrow> point \<Rightarrow> linestring \<Rightarrow> int \<Rightarrow> bool" where
  "is_location_on_route ST_Distance check_location route_path max_distance_meters =
     ST_DWithin ST_Distance check_location route_path (real_of_int max_distance_meters)"

text \<open>
  The handler \<open>validateLocationOnRoute\<close>. \<open>routes\<close> holds the rows of the table as
  pairs of id and \<open>route_path\<close> (a failed lookup is a missing row),
  \<open>validation_rpc_ok\<close> says whether the call of \<open>is_location_on_route\<close> returned without error, and \<open>distanceResult\<close> is the
  data returned by the call of \<open>calculate_distance_to_route\<close> (\<open>None\<close> when it returns
  none; its error is not looked at). The migrations define no routine of that name, so
  against the repository's database the call returns no data. \<open>x || d\<close> on numbers
  takes \<open>d\<close> when \<open>x\<close> is 0.
\<close>

record LocationValidationRequest =
  route_id :: string
  current_location :: "point option"

record LocationValidationResponse =
  on_route :: bool
  distance_from_route_meters :: real
  nearest_point :: point

record distance_row =
  distance :: real
  nearest_lat :: real
  nearest_lng :: real

datatype validation_response =
  ErrorResponse nat string | ValidationResponse LocationValidationResponse

definition or_else :: "real \<Rightarrow> real \<Rightarrow> real" where
  "or_else x dflt = (if x = 0 then dflt else x)"

definition validateLocationOnRoute ::
  "(point \<Rightarrow> linestring \<Rightarrow> real) \<Rightarrow> (string \<times> linestring) list \<Rightarrow> bool
     \<Rightarrow> distance_row option \<Rightarrow> LocationValidationRequest \<Rightarrow> validation_response" where
  "validateLocationOnRoute ST_Distance routes validation_rpc_ok distanceResult requestData =
     (case current_location requestData of
        None \<Rightarrow> ErrorResponse 400 ''MISSING_REQUIRED_FIELDS''
      | Some (latitude, longitude) \<Rightarrow>
          if route_id requestData = [] then ErrorResponse 400 ''MISSING_REQUIRED_FIELDS''
          else if latitude < -90 \<or> latitude > 90 \<or> longitude < -180 \<or> longitude > 180
            then ErrorResponse 400 ''INVALID_COORDINATES''
          else (case map_of routes (route_id requestData) of
              None \<Rightarrow> ErrorResponse 404 ''ROUTE_NOT_FOUND''
            | Some route_path \<Rightarrow>
                if \<not> validation_rpc_ok then ErrorResponse 500 ''VALIDATION_ERROR''
                else ValidationResponse
                  \<lparr> on_route =
                      is_location_on_route ST_Distance (latitude, longitude) route_path 200,
                    distance_from_route_meters =
                      (case distanceResult of None \<Rightarrow> 0 | Some r \<Rightarrow> or_else (distance r) 0),
                    nearest_point =
                      (case distanceResult of
                         None \<Rightarrow> (latitude, longitude)
                       | Some r \<Rightarrow> (or_else (nearest_lat r) latitude,
                                    or_else (nearest_lng r) longitude)) \<rparr>))"

section \<open>Route calculation: \<open>calculateScenicRoute\<close> (generate-route/index.ts)\<close>

text \<open>
  The directions response is an input: \<open>FetchError\<close> stands for a request that throws,
  \<open>DirectionsResponse status routes\<close> for a parsed body. A thrown error anywhere in the
  \<open>try\<close> block, such as reading \<open>legs[0]\<close> of a route without legs, gives the failure
  \<open>Route calculation failed\<close>.
\<close>

record step =
  html_instructions :: string
  step_distance :: int
  start_location :: "real \<times> real"
  maneuver :: "string option"

record leg =
  duration_value :: int
  distance_value :: int
  steps :: "step list"

record google_route =
  legs :: "leg list"
  overview_polyline :: js_string

datatype directions = FetchError | DirectionsResponse string "google_route list"

record instruction =
  instruction_text :: string
  distance_meters :: int
  coordinate :: "real \<times> real"
  maneuver_type :: string

record route_result =
  coordinates :: "(real \<times> real) list"
  total_distance_meters :: int
  estimated_time_seconds :: int
  baseline_time_seconds :: int
  time_increase_percent :: int
  instructions :: "instruction list"
  waypoints :: "((real \<times> real) \<times> string \<times> string) list"
  route_path :: js_string

datatype route_data = RouteFailure string | RouteSuccess route_result

record preferences =
  max_time_increase_percent :: "real option"
  interests :: "string list"

text \<open>\<open>html_instructions.replace(/<[^>]*>/g, '')\<close>.\<close>

function stripTags :: "string \<Rightarrow> string" where
  "stripTags [] = []"
| "stripTags (c # cs) =
     (if c = CHR ''<'' \<and> CHR ''>'' \<in> set cs
      then stripTags (tl (dropWhile (\<lambda>x. x \<noteq> CHR ''>'') cs))
      else c # stripTags cs)"
  by pat_completeness auto
termination
proof (relation "measure length", goal_cases)
  case 1 show ?case by simp
next
  case (2 c cs)
  have "length (tl (dropWhile (\<lambda>x. x \<noteq> CHR ''>'') cs)) \<le> length cs"
    using length_dropWhile_le[of "\<lambda>x. x \<noteq> CHR ''>''" cs] by simp
  then show ?case by simp
next
  case (3 c cs) show ?case by simp
qed

definition maneuverMap :: "(string \<times> string) list" where
  "maneuverMap =
     [(''turn-left'', ''turn_left''), (''turn-right'', ''turn_right''),
      (''turn-sharp-left'', ''turn_sharp_left''), (''turn-sharp-right'', ''turn_sharp_right''),
      (''turn-slight-left'', ''turn_slight_left''), (''turn-slight-right'', ''turn_slight_right''),
      (''straight'', ''continue_straight''), (''uturn-left'', ''u_turn''),
      (''uturn-right'', ''u_turn''), (''merge'', ''merge''),
      (''fork-left'', ''fork_left''), (''fork-right'', ''fork_right''),
      (''keep-left'', ''keep_left''), (''keep-right'', ''keep_right''),
      (''ramp-left'', ''ramp_left''), (''ramp-right'', ''ramp_right'')]"

definition mapGoogleManeuverToMapKit :: "string \<Rightarrow> string" where
  "mapGoogleManeuverToMapKit googleManeuver =
     (case map_of maneuverMap googleManeuver of
        None \<Rightarrow> ''continue_straight'' | Some m \<Rightarrow> m)"

definition convertGoogleInstructionsToMapKit :: "step list \<Rightarrow> instruction list" where
  "convertGoogleInstructionsToMapKit ss =
     map (\<lambda>s. \<lparr> instruction_text = stripTags (html_instructions s),
                distance_meters = step_distance s,
                coordinate = start_location s,
                maneuver_type = mapGoogleManeuverToMapKit
                  (case maneuver s of None \<Rightarrow> ''straight''
                   | Some m \<Rightarrow> if m = [] then ''straight'' else m) \<rparr>) ss"

definition calculateScenicRoute ::
  "bool \<Rightarrow> directions \<Rightarrow> real \<times> real \<Rightarrow> real \<times> real \<Rightarrow> preferences \<Rightarrow> route_data" where
  "calculateScenicRoute hasApiKey baselineData startCoords endCoords prefs =
     (if \<not> hasApiKey then RouteFailure ''Google Maps API key not configured''
      else case baselineData of
        FetchError \<Rightarrow> RouteFailure ''Route calculation failed''
      | DirectionsResponse st rs \<Rightarrow>
          (if st \<noteq> ''OK'' \<or> rs = [] then RouteFailure ''No baseline route found''
           else (let baselineRoute = hd rs in
             case legs baselineRoute of
               [] \<Rightarrow> RouteFailure ''Route calculation failed''
             | leg0 # _ \<Rightarrow>
                 (let baselineTime = duration_value leg0;
                      baselineDistance = distance_value leg0
                  in RouteSuccess
                       \<lparr> coordinates = decodePolyline (overview_polyline baselineRoute),
                         total_distance_meters = baselineDistance,
                         estimated_time_seconds = baselineTime,
                         baseline_time_seconds = baselineTime,
                         time_increase_percent = 0,
                         instructions = convertGoogleInstructionsToMapKit (steps leg0),
                         waypoints = [],
                         route_path = overview_polyline baselineRoute \<rparr>))))"

section \<open>Progress tracking in the request handler (generate-route/index.ts)\<close>

text \<open>
  The handler's writes to the request's row of table \<open>routes\<close>. The history is the list
  of the successive values of (\<open>status\<close>, \<open>generation_progress\<close>) of that row; it is
  empty when no row is inserted. Every write may fail: the handler returns on a failed
  insert, ignores the outcome of the progress updates and only logs an error of the last
  update. The first component of the result is the HTTP status of the response.
\<close>

datatype route_status = Processing | Completed | Failed

record GenerationState =
  status :: route_status
  generation_progress :: int

record request_env =
  method_is_post :: bool
  has_locations :: bool
  geocoded :: bool
  insert_ok :: bool
  failed_update_ok :: bool
  progress40_ok :: bool
  progress70_ok :: bool
  final_update_ok :: bool

definition db_update ::
  "bool \<Rightarrow> (GenerationState \<Rightarrow> GenerationState) \<Rightarrow> GenerationState list \<Rightarrow> GenerationState list" where
  "db_update ok change history =
     (if ok \<and> history \<noteq> [] then history @ [change (last history)] else history)"

definition generate_route :: "request_env \<Rightarrow> route_data \<Rightarrow> nat \<times> GenerationState list" where
  "generate_route env routeData =
     (if \<not> method_is_post env then (405, [])
      else if \<not> has_locations env then (400, [])
      else if \<not> geocoded env then (400, [])
      else if \<not> insert_ok env then (500, [])
      else (let inserted = [\<lparr> status = Processing, generation_progress = 10 \<rparr>] in
        case routeData of
          RouteFailure msg \<Rightarrow>
            (500, db_update (failed_update_ok env)
                    (\<lambda>s. s\<lparr> status := Failed, generation_progress := 0 \<rparr>) inserted)
        | RouteSuccess v \<Rightarrow>
            (200, db_update (final_update_ok env)
                    (\<lambda>s. s\<lparr> status := Completed, generation_progress := 100 \<rparr>)
                    (db_update (progress70_ok env) (\<lambda>s. s\<lparr> generation_progress := 70 \<rparr>)
                      (db_update (progress40_ok env) (\<lambda>s. s\<lparr> generation_progress := 40 \<rparr>)
                        inserted)))))"

definition all_ok :: request_env where
  "all_ok = \<lparr> method_is_post = True, has_locations = True, geocoded = True, insert_ok = True,
              failed_update_ok = True, progress40_ok = True, progress70_ok = True,
              final_update_ok = True \<rparr>"

section \<open>Encoder of the path codec\<close>

text \<open>
  Modelled from the spec: the source has no encoder, the encoded path comes from the
  directions service. The spec describes the encoding as the exact inverse of the
  decoding of a compact signed-delta, base-64-like string at 1e-5 degree precision. The
  model writes the format that \<open>decodePolyline\<close> reads: a value is cut into 5-bit chunks,
  least significant first; every chunk but the last carries the flag \<open>0x20\<close>, and 63 is
  added to each.
\<close>

function encodeChunks :: "int \<Rightarrow> js_string" where
  "encodeChunks v =
     (if v \<ge> 32 then word_of_int (v mod 32 + 32 + 63) # encodeChunks (v div 32)
      else [word_of_int (v + 63)])"
  by pat_completeness auto
termination
  by (relation "measure nat") auto

declare encodeChunks.simps [simp del]

text \<open>
  Modelled from the spec: a signed delta \<open>d\<close> is written as \<open>2d\<close> when it is not negative
  and as \<open>-2d - 1\<close> when it is, the inverse of the decoder's sign step.
\<close>

definition encodeSigned :: "int \<Rightarrow> js_string" where
  "encodeSigned d = encodeChunks (if d < 0 then - (2 * d) - 1 else 2 * d)"

text \<open>
  Modelled from the spec: each point is written as the deltas of its latitude and
  longitude to the previous point, starting from (0, 0).
\<close>

fun encodeFrom :: "int \<Rightarrow> int \<Rightarrow> (int \<times> int) list \<Rightarrow> js_string" where
  "encodeFrom plat plng [] = []"
| "encodeFrom plat plng ((lat, lng) # ps) =
     encodeSigned (lat - plat) @ encodeSigned (lng - plng) @ encodeFrom lat lng ps"

text \<open>
  Modelled from the spec: coordinates are rounded to units of 1e-5 degree before they
  are written.
\<close>

definition encodePolyline :: "(real \<times> real) list \<Rightarrow> js_string" where
  "encodePolyline p =
     encodeFrom 0 0 (map (\<lambda>(a, b). (round (a * 100000), round (b * 100000))) p)"

text \<open>
  A coordinate lies on the 1e-5 grid when it is an integer multiple of 1e-5 degree;
  \<open>to_degrees\<close> is the decoder's final division.
\<close>

definition on_grid :: "real \<Rightarrow> bool" where
  "on_grid x = (real_of_int (round (x * 100000)) = x * 100000)"

definition to_degrees :: "int \<times> int \<Rightarrow> real \<times> real" where
  "to_degrees = (\<lambda>(a, b). (real_of_int a / 100000, real_of_int b / 100000))"

section \<open>Properties of the path codec\<close>

lemma readDelta_dom_all: "readDelta_dom (encoded, index, shift, result)"
proof (induction "length encoded - index" arbitrary: index shift result rule: less_induct)
  case less
  show ?case
  proof (rule accpI)
    fix y
    assume "readDelta_rel y (encoded, index, shift, result)"
    then show "readDelta_dom y"
    proof (cases rule: readDelta_rel.cases)
      case (1 c b r')
      then have "index < length encoded"
        by (simp add: charCodeAt_def split: if_splits)
      then have "length encoded - (index + 1) < length encoded - index"
        using 1 by simp
      from less[OF this] show ?thesis using 1 by simp
    qed
  qed
qed

lemma decodeLoop_dom_all: "decodeLoop_dom (encoded, index, lat, lng, acc)"
proof (induction "length encoded - index" arbitrary: index lat lng acc
       rule: less_induct)
  case less
  show ?case
  proof (rule accpI)
    fix y
    assume "decodeLoop_rel y (encoded, index, lat, lng, acc)"
    then show "decodeLoop_dom y"
    proof (cases rule: decodeLoop_rel.cases)
      case (1 x i' z la' ln')
      have "index + 2 \<le> i'"
        using decodeStep_index[of index encoded lat lng] 1 by (metis fst_conv)
      then have "length encoded - i' < length encoded - index"
        using 1 by simp
      from less[OF this] show ?thesis using 1 by simp
    qed
  qed
qed

lemma decodeLoop_length:
  "2 * length (decodeLoop encoded index lat lng acc)
     \<le> 2 * length acc + (length encoded + 1 - index)"
proof (induction encoded index lat lng acc rule: decodeLoop.induct)
  case (1 encoded index lat lng acc)
  show ?case
  proof (cases "index < length encoded")
    case False
    then show ?thesis by (subst decodeLoop.simps) simp
  next
    case True
    obtain i' la' ln' where st: "decodeStep encoded (index, lat, lng) = (i', la', ln')"
      by (metis prod_cases3)
    have ge: "index + 2 \<le> i'"
      using decodeStep_index[of index encoded lat lng] st by simp
    have ih: "2 * length (decodeLoop encoded i' la' ln'
                (acc @ [(real_of_int la' / 100000, real_of_int ln' / 100000)]))
              \<le> 2 * length (acc @ [(real_of_int la' / 100000, real_of_int ln' / 100000)])
                 + (length encoded + 1 - i')"
      using "1.IH"[OF True st[symmetric] refl refl] .
    have "decodeLoop encoded index lat lng acc =
          decodeLoop encoded i' la' ln'
            (acc @ [(real_of_int la' / 100000, real_of_int ln' / 100000)])"
      using True st by (subst decodeLoop.simps) simp
    then show ?thesis using ih ge True by simp
  qed
qed

text \<open>
  C6. Decoding the empty string returns the empty coordinate list: the outer loop is not
  entered, and the decoder has no error result at all.
\<close>

theorem decodePolyline_empty: "decodePolyline [] = []"
  by (simp add: decodePolyline_def decodeLoop.simps)

text \<open>
  C10. The decoder is total on every sequence of code units. Both loops terminate on every
  argument (each argument lies in the accessible part of the loop's call relation), the
  inner loop returns an index strictly beyond the one it started from, one pass of the
  outer loop moves the index strictly forward, and the returned list is finite with at
  most one coordinate per two code units, rounded up. No branch of the decoder raises.
\<close>

theorem decodePolyline_total:
  "readDelta_dom (encoded, index, shift, result)
   \<and> index < fst (readDelta encoded index shift result)
   \<and> decodeLoop_dom (encoded, index, lat, lng, acc)
   \<and> index < fst (decodeStep encoded (index, lat, lng))
   \<and> 2 * length (decodePolyline encoded) \<le> length encoded + 1"
proof -
  have "index < fst (decodeStep encoded (index, lat, lng))"
    using decodeStep_index[of index encoded lat lng] by simp
  moreover have "2 * length (decodePolyline encoded) \<le> length encoded + 1"
    using decodeLoop_length[of encoded 0 0 0 "[]"] by (simp add: decodePolyline_def)
  ultimately show ?thesis
    using readDelta_dom_all readDelta_index decodeLoop_dom_all by blast
qed

subsection \<open>Inputs that end in the middle of a delta\<close>

text \<open>
  Reading past the end of the string behaves like reading the code unit 63 (\<open>?\<close>, the
  chunk of value 0 without continuation flag): \<open>result\<close> is unchanged and the inner loop
  exits. The lemmas below compare the decoder on a string and on the string followed by
  one such code unit.
\<close>

lemma readDelta_pad: "readDelta (encoded @ [63]) index shift result = readDelta encoded index shift result"
proof (induction encoded index shift result rule: readDelta.induct)
  case (1 encoded index shift result)
  consider (lt) "index < length encoded" | (eq) "index = length encoded" | (gt) "index > length encoded"
    by linarith
  then show ?case
  proof cases
    case lt
    then have c1: "charCodeAt (encoded @ [63]) index = Some (uint (encoded ! index))"
      and c2: "charCodeAt encoded index = Some (uint (encoded ! index))"
      by (simp_all add: charCodeAt_def nth_append)
    show ?thesis
    proof (cases "uint (encoded ! index) - 63 \<ge> 0x20")
      case True
      from "1.IH"[OF c2 refl refl True] show ?thesis
        using c1 c2 True
        by (subst readDelta.simps, subst (2) readDelta.simps) (simp add: Let_def)
    next
      case False
      then show ?thesis using c1 c2
        by (subst readDelta.simps, subst (2) readDelta.simps) (simp add: Let_def)
    qed
  next
    case eq
    then have c1: "charCodeAt (encoded @ [63]) index = Some 63"
      and c2: "charCodeAt encoded index = None"
      by (simp_all add: charCodeAt_def nth_append)
    show ?thesis using c1 c2
      by (subst readDelta.simps, subst (2) readDelta.simps) (simp add: Let_def)
  next
    case gt
    then have c1: "charCodeAt (encoded @ [63]) index = None"
      and c2: "charCodeAt encoded index = None"
      by (simp_all add: charCodeAt_def)
    show ?thesis using c1 c2
      by (subst readDelta.simps, subst (2) readDelta.simps) simp
  qed
qed

lemma readDelta_skip:
  "ends_mid_delta encoded \<Longrightarrow> index \<noteq> length encoded
   \<Longrightarrow> fst (readDelta encoded index shift result) \<noteq> length encoded"
proof (induction encoded index shift result rule: readDelta.induct)
  case (1 encoded index shift result)
  show ?case
  proof (cases "charCodeAt encoded index")
    case None
    then have "index \<ge> length encoded" by (simp add: charCodeAt_def split: if_splits)
    then show ?thesis using None by (subst readDelta.simps) simp
  next
    case (Some c)
    then have lt: "index < length encoded" and c: "c = uint (encoded ! index)"
      by (simp_all add: charCodeAt_def split: if_splits)
    show ?thesis
    proof (cases "c - 63 \<ge> 0x20")
      case True
      have eq: "readDelta encoded index shift result =
                readDelta encoded (index + 1) (shift + 5)
                  (result OR push_bit (shift mod 32) (word_of_int ((c - 63) AND 0x1f)))"
        using Some True by (subst readDelta.simps) (simp add: Let_def)
      show ?thesis
      proof (cases "index + 1 = length encoded")
        case True
        then have "charCodeAt encoded (index + 1) = None" by (simp add: charCodeAt_def)
        then have "fst (readDelta encoded (index + 1) (shift + 5)
                  (result OR push_bit (shift mod 32) (word_of_int ((c - 63) AND 0x1f))))
                   = index + 2"
          by (subst readDelta.simps) simp
        then show ?thesis using eq True by simp
      next
        case False
        from "1.IH"[OF Some refl refl True "1.prems"(1) False] show ?thesis using eq by simp
      qed
    next
      case False
      have "index + 1 \<noteq> length encoded"
      proof
        assume e: "index + 1 = length encoded"
        then have "last encoded = encoded ! index"
          using lt by (metis add_diff_cancel_right' last_conv_nth length_0_conv not_less_zero)
        then show False using "1.prems"(1) False c by (simp add: ends_mid_delta_def)
      qed
      then show ?thesis using Some False by (subst readDelta.simps) (simp add: Let_def)
    qed
  qed
qed

lemma decodeStep_pad: "decodeStep (encoded @ [63]) = decodeStep encoded"
  by (simp add: decodeStep_def readDelta_pad)

lemma decodeStep_skip:
  assumes "ends_mid_delta encoded" "index \<noteq> length encoded"
  shows "fst (decodeStep encoded (index, lat, lng)) \<noteq> length encoded"
proof -
  obtain i1 r1 where a: "readDelta encoded index 0 0 = (i1, r1)" by fastforce
  obtain i2 r2 where b: "readDelta encoded i1 0 0 = (i2, r2)" by fastforce
  have "i1 \<noteq> length encoded" using readDelta_skip[OF assms, of 0 0] a by simp
  then have "i2 \<noteq> length encoded" using readDelta_skip[OF assms(1), of i1 0 0] b by simp
  then show ?thesis by (simp add: decodeStep_def a b)
qed

lemma decodeLoop_pad:
  "ends_mid_delta encoded \<Longrightarrow> index \<noteq> length encoded
   \<Longrightarrow> decodeLoop (encoded @ [63]) index lat lng acc
       = decodeLoop encoded index lat lng acc"
proof (induction encoded index lat lng acc rule: decodeLoop.induct)
  case (1 encoded index lat lng acc)
  show ?case
  proof (cases "index < length encoded")
    case False
    then have "\<not> index < length (encoded @ [63])" using "1.prems"(2) by simp
    then show ?thesis using False
      by (subst decodeLoop.simps, subst (2) decodeLoop.simps) simp
  next
    case True
    obtain i' la' ln' where st: "decodeStep encoded (index, lat, lng) = (i', la', ln')"
      by (metis prod_cases3)
    have ne: "i' \<noteq> length encoded"
      using decodeStep_skip[OF "1.prems", of lat lng] st by simp
    have ih: "decodeLoop (encoded @ [63]) i' la' ln'
                (acc @ [(real_of_int la' / 100000, real_of_int ln' / 100000)])
              = decodeLoop encoded i' la' ln'
                (acc @ [(real_of_int la' / 100000, real_of_int ln' / 100000)])"
      using "1.IH"[OF True st[symmetric] refl refl "1.prems"(1) ne] .
    have l: "decodeLoop (encoded @ [63]) index lat lng acc =
          decodeLoop (encoded @ [63]) i' la' ln'
            (acc @ [(real_of_int la' / 100000, real_of_int ln' / 100000)])"
      using True st by (subst decodeLoop.simps) (simp add: decodeStep_pad)
    have r: "decodeLoop encoded index lat lng acc =
          decodeLoop encoded i' la' ln'
            (acc @ [(real_of_int la' / 100000, real_of_int ln' / 100000)])"
      using True st by (subst decodeLoop.simps) simp
    show ?thesis using l r ih by simp
  qed
qed

lemma decodeLoop_grows:
  "length acc \<le> length (decodeLoop encoded index lat lng acc)"
proof (induction encoded index lat lng acc rule: decodeLoop.induct)
  case (1 encoded index lat lng acc)
  show ?case
  proof (cases "index < length encoded")
    case False
    then show ?thesis by (subst decodeLoop.simps) simp
  next
    case True
    obtain i' la' ln' where st: "decodeStep encoded (index, lat, lng) = (i', la', ln')"
      by (metis prod_cases3)
    have r: "decodeLoop encoded index lat lng acc =
          decodeLoop encoded i' la' ln'
            (acc @ [(real_of_int la' / 100000, real_of_int ln' / 100000)])"
      using True st by (subst decodeLoop.simps) simp
    show ?thesis using "1.IH"[OF True st[symmetric] refl refl] r by simp
  qed
qed

lemma decodePolyline_nonempty: "encoded \<noteq> [] \<Longrightarrow> decodePolyline encoded \<noteq> []"
proof -
  assume ne: "encoded \<noteq> []"
  obtain i' la' ln' where st: "decodeStep encoded (0, 0, 0) = (i', la', ln')"
    by (metis prod_cases3)
  have "decodePolyline encoded =
          decodeLoop encoded i' la' ln' ([] @ [(real_of_int la' / 100000, real_of_int ln' / 100000)])"
    unfolding decodePolyline_def using ne st by (subst decodeLoop.simps) simp
  moreover have "1 \<le> length (decodeLoop encoded i' la' ln' ([] @ [(real_of_int la' / 100000, real_of_int ln' / 100000)]))"
    using decodeLoop_grows[of "[] @ [(real_of_int la' / 100000, real_of_int ln' / 100000)]" encoded i' la' ln'] by simp
  ultimately show ?thesis by auto
qed

text \<open>
  C2 (as stated, refuted). The string \<open>_\<close> consists of one chunk with the continuation
  flag set, so it ends in the middle of a delta; the decoder returns the one-point list
  \<open>[(0, 0)]\<close> for it. The decoder has no error result.
\<close>

theorem decodePolyline_mid_delta_counterexample:
  "ends_mid_delta (str ''_'') \<and> decodePolyline (str ''_'') = [(0, 0)]"
  by code_simp

text \<open>
  C2 (amended). For every input that ends in the middle of a delta the decoder returns a
  non-empty coordinate list, the same list it returns for the input completed by one
  closing chunk of value 0 (code unit 63): the missing chunks are read as zero.
\<close>

theorem decodePolyline_truncated:
  "ends_mid_delta encoded \<Longrightarrow>
     decodePolyline encoded = decodePolyline (encoded @ [63]) \<and> decodePolyline encoded \<noteq> []"
proof -
  assume a: "ends_mid_delta encoded"
  then have ne: "encoded \<noteq> []" by (simp add: ends_mid_delta_def)
  then have "0 \<noteq> length encoded" by simp
  from decodeLoop_pad[OF a this] decodePolyline_nonempty[OF ne]
  show ?thesis by (simp add: decodePolyline_def)
qed

theorem decodePolyline_truncated_witness:
  "ends_mid_delta (str ''_p~iF~ps'') \<and>
   decodePolyline (str ''_p~iF~ps'') = decodePolyline (str ''_p~iF~ps'' @ [63]) \<and>
   decodePolyline (str ''_p~iF~ps'') \<noteq> []"
proof -
  have h: "ends_mid_delta (str ''_p~iF~ps'')" by code_simp
  show ?thesis using h decodePolyline_truncated[OF h] by blast
qed

section \<open>Properties of the POI scorer\<close>

lemma ln_1000: "ln (1000::real) = 3 * ln 10"
proof -
  have e: "(1000::real) = 10 ^ 3" by simp
  have "ln ((10::real) ^ 3) = real 3 * ln 10" by (rule ln_realpow)
  then show ?thesis unfolding e by simp
qed

lemma pop10: "popularityScore 10 = 1 / 15"
  by (simp add: popularityScore_def ln_1000)

lemma ratingScore_mono: "r \<le> r' \<Longrightarrow> ratingScore r \<le> ratingScore r'"
  by (simp add: ratingScore_def)

lemma popularityScore_nonneg: "c \<le> 0 \<or> 1 \<le> c \<Longrightarrow> 0 \<le> popularityScore c"
proof -
  assume a: "c \<le> 0 \<or> 1 \<le> c"
  have pos: "0 < ln (1000::real)" by simp
  show ?thesis
  proof (cases "c > 0")
    case False
    then show ?thesis by (simp add: popularityScore_def)
  next
    case True
    then have "1 \<le> c" using a by simp
    then have "0 \<le> ln c" by simp
    then have "0 \<le> ln c / ln 1000" using pos by simp
    then have "0 \<le> min (ln c / ln 1000) 1" by simp
    then show ?thesis using True by (simp add: popularityScore_def)
  qed
qed

lemma popularityScore_le: "popularityScore c \<le> 1 / 5"
  by (simp add: popularityScore_def min_def)

lemma popularityScore_mono:
  "c \<le> c' \<Longrightarrow> c' \<le> 0 \<or> 1 \<le> c' \<Longrightarrow> popularityScore c \<le> popularityScore c'"
proof -
  assume le: "c \<le> c'" and a: "c' \<le> 0 \<or> 1 \<le> c'"
  have pos: "0 < ln (1000::real)" by simp
  show ?thesis
  proof (cases "c > 0")
    case False
    then have "popularityScore c = 0" by (simp add: popularityScore_def)
    then show ?thesis using popularityScore_nonneg[OF a] by simp
  next
    case True
    then have "ln c \<le> ln c'" using le by simp
    then have "ln c / ln 1000 \<le> ln c' / ln 1000" using pos by (simp add: divide_right_mono)
    then have "min (ln c / ln 1000) 1 \<le> min (ln c' / ln 1000) 1"
      by (intro min.mono) simp_all
    then show ?thesis using True le by (simp add: popularityScore_def)
  qed
qed

lemma js_round_mono: "x \<le> y \<Longrightarrow> js_round x \<le> js_round y"
  by (simp add: js_round_def floor_mono)

lemma calculatePOIScore_mono:
  "r \<le> r' \<Longrightarrow> c \<le> c' \<Longrightarrow> c' \<le> 0 \<or> 1 \<le> c'
   \<Longrightarrow> calculatePOIScore r c t d \<le> calculatePOIScore r' c' t d"
  unfolding calculatePOIScore_def finalScore_def
  using ratingScore_mono[of r r'] popularityScore_mono[of c c']
  by (intro js_round_mono) simp

lemma typeScore_bounds: "2 / 25 \<le> typeScore t \<and> typeScore t \<le> 1 / 5"
  by (simp add: typeScore_def)

lemma distanceScore_bounds: "1 / 50 \<le> distanceScore d \<and> distanceScore d \<le> 1 / 10"
  by (simp add: distanceScore_def)

lemma ratingScore_bounds: "0 \<le> ratingScore r \<and> (r \<le> 5 \<longrightarrow> ratingScore r \<le> 1 / 4)"
  by (simp add: ratingScore_def)

lemma calculatePOIScore_bounds:
  assumes "r \<le> 5" "c \<le> 0 \<or> 1 \<le> c"
  shows "23 \<le> calculatePOIScore r c t d \<and> calculatePOIScore r c t d \<le> 88"
proof -
  have lo: "9 / 40 \<le> finalScore r c t d"
    using ratingScore_bounds[of r] popularityScore_nonneg[OF assms(2)]
      typeScore_bounds[of t] distanceScore_bounds[of d]
    by (simp add: finalScore_def uniquenessScore_def historicalScore_def)
  have hi: "finalScore r c t d \<le> 7 / 8"
    using ratingScore_bounds[of r] assms(1) popularityScore_le[of c]
      typeScore_bounds[of t] distanceScore_bounds[of d]
    by (simp add: finalScore_def uniquenessScore_def historicalScore_def)
  have "js_round (9 / 40 * 100) \<le> js_round (finalScore r c t d * 100)"
    using lo by (intro js_round_mono) simp
  moreover have "js_round (finalScore r c t d * 100) \<le> js_round (7 / 8 * 100)"
    using hi by (intro js_round_mono) simp
  moreover have "js_round (9 / 40 * 100) = 23" "js_round (7 / 8 * 100) = 88"
    by (simp_all add: js_round_def)
  ultimately show ?thesis by (simp add: calculatePOIScore_def)
qed

text \<open>
  C4. On the grid of ratings \<open>{0, 2.5, 5}\<close> and review counts
  \<open>{0, 10, 1000, 1000000}\<close> the score of a tourist attraction at distance 0 is
  non-decreasing in the rating and in the review count and lies between 0 and 100. The
  scorer is a total function of its four arguments, and with rating 0 and no reviews
  (the values the aggregator passes for a place without them) the score is positive for
  every category and distance.
\<close>

theorem calculatePOIScore_grid:
  "(\<forall>r\<in>{0, 5 / 2, 5}. \<forall>r'\<in>{0, 5 / 2, 5}.
     \<forall>c\<in>{0, 10, 1000, 1000000}. \<forall>c'\<in>{0, 10, 1000, 1000000}.
       (r \<le> r' \<and> c \<le> c' \<longrightarrow>
          calculatePOIScore r c ''tourist_attraction'' 0
            \<le> calculatePOIScore r' c' ''tourist_attraction'' 0)
       \<and> 0 \<le> calculatePOIScore r c ''tourist_attraction'' 0
       \<and> calculatePOIScore r c ''tourist_attraction'' 0 \<le> 100)
   \<and> 0 < calculatePOIScore 0 0 t d"
proof -
  have g: "\<And>c::real. c \<in> {0, 10, 1000, 1000000} \<Longrightarrow> c \<le> 0 \<or> 1 \<le> c" by auto
  have r5: "\<And>r::real. r \<in> {0, 5 / 2, 5} \<Longrightarrow> r \<le> 5" by auto
  have "0 < calculatePOIScore 0 0 t d"
    using calculatePOIScore_bounds[of 0 0 t d] by simp
  moreover have "\<forall>r\<in>{0, 5 / 2, 5}. \<forall>r'\<in>{0, 5 / 2, 5}.
     \<forall>c\<in>{0, 10, 1000, 1000000}. \<forall>c'\<in>{0, 10, 1000, 1000000}.
       (r \<le> r' \<and> c \<le> c' \<longrightarrow>
          calculatePOIScore r c ''tourist_attraction'' 0
            \<le> calculatePOIScore r' c' ''tourist_attraction'' 0)
       \<and> 0 \<le> calculatePOIScore r c ''tourist_attraction'' 0
       \<and> calculatePOIScore r c ''tourist_attraction'' 0 \<le> 100"
  proof (intro ballI conjI impI)
    fix r r' c c' :: real
    assume m: "r \<in> {0, 5 / 2, 5}" "r' \<in> {0, 5 / 2, 5}"
      "c \<in> {0, 10, 1000, 1000000}" "c' \<in> {0, 10, 1000, 1000000}"
    { assume "r \<le> r' \<and> c \<le> c'"
      then show "calculatePOIScore r c ''tourist_attraction'' 0
            \<le> calculatePOIScore r' c' ''tourist_attraction'' 0"
        using calculatePOIScore_mono[of r r' c c'] g[OF m(4)] by blast }
    show "0 \<le> calculatePOIScore r c ''tourist_attraction'' 0"
      using calculatePOIScore_bounds[OF r5[OF m(1)] g[OF m(3)], of "''tourist_attraction''" 0]
      by linarith
    show "calculatePOIScore r c ''tourist_attraction'' 0 \<le> 100"
      using calculatePOIScore_bounds[OF r5[OF m(1)] g[OF m(3)], of "''tourist_attraction''" 0]
      by linarith
  qed
  ultimately show ?thesis by blast
qed

theorem calculatePOIScore_grid_witness:
  "(0::real) \<in> {0, 5 / 2, 5} \<and> (5 / 2::real) \<in> {0, 5 / 2, 5}
   \<and> (10::real) \<in> {0, 10, 1000, 1000000} \<and> (1000::real) \<in> {0, 10, 1000, 1000000}
   \<and> (0::real) \<le> 5 / 2 \<and> (10::real) \<le> 1000
   \<and> calculatePOIScore 0 10 ''tourist_attraction'' 0
         \<le> calculatePOIScore (5 / 2) 1000 ''tourist_attraction'' 0
   \<and> 0 \<le> calculatePOIScore 0 10 ''tourist_attraction'' 0
   \<and> calculatePOIScore 0 10 ''tourist_attraction'' 0 \<le> 100"
  using calculatePOIScore_grid[of "''x''" 0] by simp


text \<open>
  C3 (as stated, refuted). For rating 4.5, 10 reviews, category \<open>tourist_attraction\<close>
  and distance 0 the application scorer returns 72 and the database routine, with its
  default uniqueness argument 5, returns 76.67.
\<close>

theorem scorers_differ_counterexample:
  "calculatePOIScore 4.5 10 ''tourist_attraction'' 0 = 72 \<and>
   calculate_poi_score (Some 4.5) (Some 10) (Some ''tourist_attraction'') (Some 0) 5 = 76.67"
  by (simp add: calculatePOIScore_def finalScore_def ratingScore_def pop10 typeScore_def
     distanceScore_def uniquenessScore_def historicalScore_def js_round_def
     calculate_poi_score_def final_score_def rating_score_def popularity_score_sql_def ln_1000
     type_score_def distance_score_def sql_round2_def)

text \<open>
  C3 (amended). For every rating \<open>r \<ge> 0\<close>, review count, category and distance, the
  two routines compute the same rating, popularity, category, proximity and (default)
  uniqueness components: their unrounded sums agree once each routine's own constant for
  historical significance is taken away. The application scorer then rounds 100 times
  its sum to an integer, the database routine rounds 100 times its sum to two decimals.
\<close>

theorem scorers_agree_on_components:
  "0 \<le> r \<Longrightarrow>
   finalScore r (real_of_int c) t d - historicalScore
     = final_score (Some r) (Some c) (Some t) (Some d) 5 - 0.10"
  by (simp add: finalScore_def final_score_def ratingScore_def rating_score_def
      popularityScore_def popularity_score_sql_def typeScore_def type_score_def
      distanceScore_def distance_score_def uniquenessScore_def)

theorem scorers_agree_on_components_witness:
  "(0::real) \<le> 4.5 \<and>
   finalScore 4.5 (real_of_int 10) ''museum'' 300 - historicalScore
     = final_score (Some 4.5) (Some 10) (Some ''museum'') (Some 300) 5 - 0.10"
  using scorers_agree_on_components[of "4.5" 10 "''museum''" 300] by simp

section \<open>Properties of the POI aggregator\<close>

lemma addPlaces_ids:
  "google_place_id ` set (addPlaces i ps ds) = google_place_id ` set ds \<union> place_id ` set ps"
proof (induction ps arbitrary: ds)
  case Nil
  show ?case by simp
next
  case (Cons p ps)
  show ?case
  proof (cases "find (\<lambda>q. google_place_id q = place_id p) ds")
    case None
    then show ?thesis using Cons[of "ds @ [makePOI i p]"] by (auto simp: makePOI_def Let_def)
  next
    case (Some e)
    then have "place_id p \<in> google_place_id ` set ds"
      by (metis (mono_tags, lifting) find_Some_iff image_eqI nth_mem)
    then show ?thesis using Some Cons[of ds] by (auto simp: makePOI_def Let_def)
  qed
qed

lemma addPlaces_distinct:
  "distinct (map google_place_id ds) \<Longrightarrow> distinct (map google_place_id (addPlaces i ps ds))"
proof (induction ps arbitrary: ds)
  case Nil
  then show ?case by simp
next
  case (Cons p ps)
  show ?case
  proof (cases "find (\<lambda>q. google_place_id q = place_id p) ds")
    case None
    then have "place_id p \<notin> google_place_id ` set ds"
      by (auto simp: find_None_iff)
    then have "distinct (map google_place_id (ds @ [makePOI i p]))"
      using Cons.prems by (simp add: makePOI_def)
    from Cons.IH[OF this] show ?thesis using None by (simp add: makePOI_def Let_def)
  next
    case (Some e)
    then show ?thesis using Cons.IH[OF Cons.prems] by (simp add: makePOI_def Let_def)
  qed
qed

lemma addPlaces_new:
  "x \<in> set (addPlaces i ps ds) \<Longrightarrow>
     x \<in> set ds \<or> (route_coordinate_index x = i \<and> google_place_id x \<in> place_id ` set ps
                    \<and> google_place_id x \<notin> google_place_id ` set ds)"
proof (induction ps arbitrary: ds)
  case Nil
  then show ?case by simp
next
  case (Cons p ps)
  show ?case
  proof (cases "find (\<lambda>q. google_place_id q = place_id p) ds")
    case None
    then have nin: "place_id p \<notin> google_place_id ` set ds"
      by (auto simp: find_None_iff)
    have "x \<in> set (addPlaces i ps (ds @ [makePOI i p]))"
      using Cons.prems None by (simp add: makePOI_def Let_def)
    from Cons.IH[OF this] show ?thesis using nin by (auto simp: makePOI_def)
  next
    case (Some e)
    then have "x \<in> set (addPlaces i ps ds)"
      using Cons.prems by (simp add: makePOI_def Let_def)
    from Cons.IH[OF this] show ?thesis by auto
  qed
qed

lemma searchInterval_pos: "0 < searchInterval n"
  by (simp add: searchInterval_def)

lemma sample_step:
  assumes "i < n"
  shows "sample n i k \<longleftrightarrow> k = i \<or> sample n (i + searchInterval n) k"
proof -
  let ?s = "searchInterval n"
  have pos: "0 < ?s" by (rule searchInterval_pos)
  show ?thesis
  proof
    assume a: "sample n i k"
    then have ik: "i \<le> k" and kn: "k < n" and dv: "?s dvd (k - i)"
      by (simp_all add: sample_def)
    show "k = i \<or> sample n (i + ?s) k"
    proof (cases "k = i")
      case True then show ?thesis by simp
    next
      case False
      then have gt: "0 < k - i" using ik by simp
      have ge: "?s \<le> k - i" by (rule dvd_imp_le[OF dv gt])
      have d2: "?s dvd (k - i - ?s)" by (rule dvd_diff_nat[OF dv dvd_refl])
      have e: "k - (i + ?s) = k - i - ?s" by simp
      have "i + ?s \<le> k" using ge ik by linarith
      then show ?thesis using kn d2 unfolding sample_def e by blast
    qed
  next
    assume "k = i \<or> sample n (i + ?s) k"
    then show "sample n i k"
    proof
      assume "k = i" then show ?thesis using assms by (simp add: sample_def)
    next
      assume a: "sample n (i + ?s) k"
      then have ik: "i + ?s \<le> k" and kn: "k < n" and dv: "?s dvd (k - (i + ?s))"
        by (simp_all add: sample_def)
      have e: "k - i = (k - (i + ?s)) + ?s" using ik by linarith
      have "?s dvd (k - i)" unfolding e by (rule dvd_add[OF dv dvd_refl])
      moreover have "i \<le> k" using ik by linarith
      ultimately show ?thesis using kn unfolding sample_def by blast
    qed
  qed
qed

lemma sample_none: "\<not> i < n \<Longrightarrow> \<not> sample n i k"
  by (simp add: sample_def)

lemma searchLoop_step:
  "i < n \<Longrightarrow> searchLoop nearby n i ds =
     searchLoop nearby n (i + searchInterval n) (searchAt nearby i ds)"
  by (subst searchLoop.simps) simp

lemma searchLoop_stop: "\<not> i < n \<Longrightarrow> searchLoop nearby n i ds = ds"
  by (subst searchLoop.simps) simp

lemma body_ids:
  "google_place_id ` set (searchAt nearby i ds)
   = google_place_id ` set ds \<union> seen_at nearby i"
  by (simp add: searchAt_def seen_at_def addPlaces_ids split: option.splits)

lemma body_distinct:
  "distinct (map google_place_id ds) \<Longrightarrow>
   distinct (map google_place_id (searchAt nearby i ds))"
  by (simp add: searchAt_def addPlaces_distinct split: option.splits)

lemma body_new:
  "x \<in> set (searchAt nearby i ds) \<Longrightarrow>
   x \<in> set ds \<or> (route_coordinate_index x = i \<and> google_place_id x \<in> seen_at nearby i
                  \<and> google_place_id x \<notin> google_place_id ` set ds)"
  using addPlaces_new[of x i _ ds] by (auto simp: searchAt_def seen_at_def split: option.splits)

lemma searchLoop_ids:
  "google_place_id ` set (searchLoop nearby n i ds)
     = google_place_id ` set ds \<union> (\<Union>k\<in>{k. sample n i k}. seen_at nearby k)"
proof (induction nearby n i ds rule: searchLoop.induct)
  case (1 nearby n i ds)
  show ?case
  proof (cases "i < n")
    case False
    then show ?thesis by (simp add: searchLoop_stop sample_none)
  next
    case True
    have "{k. sample n i k} = insert i {k. sample n (i + searchInterval n) k}"
      using sample_step[OF True] by auto
    then show ?thesis
      using "1.IH"[OF True] by (simp add: searchLoop_step[OF True] body_ids Un_assoc)
  qed
qed

lemma searchLoop_distinct:
  "distinct (map google_place_id ds) \<Longrightarrow>
   distinct (map google_place_id (searchLoop nearby n i ds))"
proof (induction nearby n i ds rule: searchLoop.induct)
  case (1 nearby n i ds)
  show ?case
  proof (cases "i < n")
    case False
    then show ?thesis using "1.prems" by (simp add: searchLoop_stop)
  next
    case True
    show ?thesis
      using "1.IH"[OF True body_distinct[OF "1.prems", of nearby i]]
      by (simp add: searchLoop_step[OF True])
  qed
qed

lemma searchLoop_new:
  "x \<in> set (searchLoop nearby n i ds) \<Longrightarrow>
   x \<in> set ds \<or>
   (sample n i (route_coordinate_index x)
    \<and> google_place_id x \<in> seen_at nearby (route_coordinate_index x)
    \<and> google_place_id x \<notin> google_place_id ` set ds
    \<and> (\<forall>k. sample n i k \<and> k < route_coordinate_index x
           \<longrightarrow> google_place_id x \<notin> seen_at nearby k))"
proof (induction nearby n i ds rule: searchLoop.induct)
  case (1 nearby n i ds)
  show ?case
  proof (cases "i < n")
    case False
    then show ?thesis using "1.prems" by (simp add: searchLoop_stop)
  next
    case True
    let ?ds' = "searchAt nearby i ds"
    have mem: "x \<in> set (searchLoop nearby n (i + searchInterval n) ?ds')"
      using "1.prems" by (simp add: searchLoop_step[OF True])
    from "1.IH"[OF True mem]
    consider (old) "x \<in> set ?ds'"
      | (new) "sample n (i + searchInterval n) (route_coordinate_index x)"
          "google_place_id x \<in> seen_at nearby (route_coordinate_index x)"
          "google_place_id x \<notin> google_place_id ` set ?ds'"
          "\<forall>k. sample n (i + searchInterval n) k \<and> k < route_coordinate_index x
             \<longrightarrow> google_place_id x \<notin> seen_at nearby k"
      by blast
    then show ?thesis
    proof cases
      case old
      from body_new[OF old] show ?thesis
      proof
        assume "x \<in> set ds" then show ?thesis by simp
      next
        assume a: "route_coordinate_index x = i \<and> google_place_id x \<in> seen_at nearby i
                  \<and> google_place_id x \<notin> google_place_id ` set ds"
        have "sample n i i" using True by (simp add: sample_def)
        moreover have "\<forall>k. sample n i k \<and> k < i \<longrightarrow> google_place_id x \<notin> seen_at nearby k"
          by (auto simp: sample_def)
        ultimately show ?thesis using a by simp
      qed
    next
      case new
      have nin: "google_place_id x \<notin> google_place_id ` set ds"
        and ni: "google_place_id x \<notin> seen_at nearby i"
        using new(3) body_ids[of nearby i ds] by auto
      have s: "sample n i (route_coordinate_index x)"
        using new(1) sample_step[OF True] by simp
      have "\<forall>k. sample n i k \<and> k < route_coordinate_index x
             \<longrightarrow> google_place_id x \<notin> seen_at nearby k"
      proof (intro allI impI)
        fix k
        assume a: "sample n i k \<and> k < route_coordinate_index x"
        then have "k = i \<or> sample n (i + searchInterval n) k"
          using sample_step[OF True, of k] by simp
        then show "google_place_id x \<notin> seen_at nearby k"
        proof
          assume "k = i" then show ?thesis using ni by simp
        next
          assume "sample n (i + searchInterval n) k"
          then show ?thesis using new(4) a by simp
        qed
      qed
      then show ?thesis using s new(2) nin by simp
    qed
  qed
qed

lemma sample_zero: "sample n 0 k \<longleftrightarrow> k < n \<and> searchInterval n dvd k"
  by (simp add: sample_def)

lemma distinct_filter_single:
  "distinct (map f xs) \<Longrightarrow> x \<in> set xs \<Longrightarrow> filter (\<lambda>y. f y = f x) xs = [x]"
proof (induction xs)
  case Nil
  then show ?case by simp
next
  case (Cons a xs)
  show ?case
  proof (cases "x = a")
    case True
    have "f a \<notin> f ` set xs" using Cons.prems(1) by simp
    then have "\<forall>y\<in>set xs. f y \<noteq> f a" by (metis imageI)
    then have "filter (\<lambda>y. f y = f a) xs = []" by (simp add: filter_empty_conv)
    then show ?thesis using True by simp
  next
    case False
    then have "x \<in> set xs" using Cons.prems(2) by simp
    then have "f a \<noteq> f x" using Cons.prems(1) by auto
    then show ?thesis using Cons.IH \<open>x \<in> set xs\<close> Cons.prems(1) by simp
  qed
qed

lemma distinct_filter_le1:
  "distinct (map f xs) \<Longrightarrow> length (filter (\<lambda>y. f y = a) xs) \<le> 1"
proof (cases "a \<in> f ` set xs")
  case False
  then have "filter (\<lambda>y. f y = a) xs = []" by (auto simp: filter_empty_conv)
  then show ?thesis by simp
next
  case True
  assume d: "distinct (map f xs)"
  from True obtain x where "x \<in> set xs" "a = f x" by auto
  then show ?thesis using distinct_filter_single[OF d, of x] by simp
qed

lemma distinct_map_sort_key:
  "distinct (map f xs) \<Longrightarrow> distinct (map f (sort_key k xs))"
  by (simp add: distinct_map)

lemma score_top: "calculatePOIScore (9 / 2) 0 ''tourist_attraction'' 0 = 65"
  by (simp add: calculatePOIScore_def finalScore_def ratingScore_def popularityScore_def
      typeScore_def distanceScore_def uniquenessScore_def historicalScore_def js_round_def)

lemma score_dup: "calculatePOIScore (1 / 2) 0 ''unknown'' 0 = 33"
  by (simp add: calculatePOIScore_def finalScore_def ratingScore_def popularityScore_def
      typeScore_def distanceScore_def uniquenessScore_def historicalScore_def js_round_def)

text \<open>
  C7 (as stated, refuted). Eight places with score 65 and the place \<open>dup\<close> with score 33
  are found at sample index 0, and \<open>dup\<close> again at sample index 1. The list that
  \<open>discoverPOIsNearRoute\<close> returns is sorted by score and cut to 8 entries: it holds no
  POI with the identifier \<open>dup\<close>, neither the first-seen occurrence nor the later one.
\<close>

theorem cap_drops_duplicate_counterexample:
  "crowded 0 = Some (top_places @ [dup_place]) \<and> crowded 1 = Some [dup_place]
   \<and> length (top_places @ [dup_place]) \<le> maxPOIsPerSearch
   \<and> place_id dup_place = ''dup''
   \<and> map popularity_score (searchLoop crowded 2 0 []) = [65, 65, 65, 65, 65, 65, 65, 65, 33]
   \<and> map google_place_id (discoverPOIsNearRoute True crowded [(0, 0), (1, 1)])
       = [''p1'', ''p2'', ''p3'', ''p4'', ''p5'', ''p6'', ''p7'', ''p8'']"
  by (simp add: discoverPOIsNearRoute_def searchLoop_step searchLoop_stop searchAt_def
      searchInterval_def maxPOIsPerSearch_def crowded_def top_places_def top_place_def
      dup_place_def makePOI_def first_type_or_def or_zero_def score_top score_dup)

text \<open>
  C7 (amended). Let two places with the same \<open>place_id\<close> be found among the first
  \<open>maxPOIsPerSearch\<close> results at two different sample indices \<open>i < j\<close> of the path.
  Then the merged list \<open>discoveredPOIs\<close> that the sample loop builds holds exactly one POI
  with that identifier. Its \<open>route_coordinate_index\<close> is a sample index not after \<open>i\<close>
  at which the identifier was found, and at no earlier sample index was it found: it is
  the first-seen occurrence. The list returned after sorting and the cut to 8 entries
  holds no other POI with that identifier and at most one; it holds exactly that POI
  when the merged list has at most 8 entries.
\<close>

theorem dedup_first_seen:
  assumes "i < j" and "j < length coords"
    and "searchInterval (length coords) dvd i"
    and "searchInterval (length coords) dvd j"
    and "nearby i = Some ri" and "nearby j = Some rj"
    and "p \<in> set (take maxPOIsPerSearch ri)" and "q \<in> set (take maxPOIsPerSearch rj)"
    and "place_id p = place_id q"
  shows "\<exists>x. filter (\<lambda>y. google_place_id y = place_id p)
               (searchLoop nearby (length coords) 0 []) = [x]
            \<and> route_coordinate_index x \<le> i
            \<and> searchInterval (length coords) dvd route_coordinate_index x
            \<and> place_id p \<in> seen_at nearby (route_coordinate_index x)
            \<and> (\<forall>k < route_coordinate_index x.
                  searchInterval (length coords) dvd k
                    \<longrightarrow> place_id p \<notin> seen_at nearby k)
            \<and> set (filter (\<lambda>y. google_place_id y = place_id p)
                     (discoverPOIsNearRoute True nearby coords)) \<subseteq> {x}
            \<and> length (filter (\<lambda>y. google_place_id y = place_id p)
                     (discoverPOIsNearRoute True nearby coords)) \<le> 1
            \<and> (length (searchLoop nearby (length coords) 0 []) \<le> 8 \<longrightarrow>
                 filter (\<lambda>y. google_place_id y = place_id p)
                   (discoverPOIsNearRoute True nearby coords) = [x])"
proof -
  let ?n = "length coords"
  let ?m = "searchLoop nearby ?n 0 []"
  have d: "distinct (map google_place_id ?m)"
    by (rule searchLoop_distinct) simp
  have si: "sample ?n 0 i" using assms(1-3) by (simp add: sample_zero)
  have "place_id p \<in> seen_at nearby i" using assms(5,7) by (simp add: seen_at_def)
  then have "place_id p \<in> (\<Union>k\<in>{k. sample ?n 0 k}. seen_at nearby k)"
    using si by blast
  then have "place_id p \<in> google_place_id ` set ?m"
    using searchLoop_ids[of nearby ?n 0 "[]"] by simp
  then obtain x where x: "x \<in> set ?m" "google_place_id x = place_id p" by auto
  have f: "filter (\<lambda>y. google_place_id y = place_id p) ?m = [x]"
    using distinct_filter_single[OF d x(1)] x(2) by simp
  from searchLoop_new[OF x(1)]
  have n: "sample ?n 0 (route_coordinate_index x)"
    "google_place_id x \<in> seen_at nearby (route_coordinate_index x)"
    "\<forall>k. sample ?n 0 k \<and> k < route_coordinate_index x
           \<longrightarrow> google_place_id x \<notin> seen_at nearby k"
    by simp_all
  have le: "route_coordinate_index x \<le> i"
  proof (rule ccontr)
    assume "\<not> route_coordinate_index x \<le> i"
    then have "i < route_coordinate_index x" by simp
    then have "google_place_id x \<notin> seen_at nearby i" using n(3) si by blast
    then show False using \<open>place_id p \<in> seen_at nearby i\<close> x(2) by simp
  qed
  have first: "\<forall>k < route_coordinate_index x.
                  searchInterval ?n dvd k \<longrightarrow> place_id p \<notin> seen_at nearby k"
  proof (intro allI impI)
    fix k assume k: "k < route_coordinate_index x" "searchInterval ?n dvd k"
    have "k < ?n" using k(1) n(1) by (simp add: sample_zero)
    then have "sample ?n 0 k" using k(2) by (simp add: sample_zero)
    then show "place_id p \<notin> seen_at nearby k" using n(3) k(1) x(2) by auto
  qed
  let ?out = "discoverPOIsNearRoute True nearby coords"
  have out: "?out = take 8 (sort_key (\<lambda>p. - popularity_score p) ?m)"
    by (simp add: discoverPOIsNearRoute_def)
  have sub: "set ?out \<subseteq> set ?m"
    unfolding out using set_take_subset[of 8 "sort_key (\<lambda>p. - popularity_score p) ?m"] by simp
  have "set (filter (\<lambda>y. google_place_id y = place_id p) ?out)
          \<subseteq> set (filter (\<lambda>y. google_place_id y = place_id p) ?m)"
    using sub by auto
  then have s1: "set (filter (\<lambda>y. google_place_id y = place_id p) ?out) \<subseteq> {x}"
    using f by simp
  have "distinct (map google_place_id ?out)"
    unfolding out using distinct_map_sort_key[OF d, of "\<lambda>p. - popularity_score p"]
    by (metis distinct_take take_map)
  then have s2: "length (filter (\<lambda>y. google_place_id y = place_id p) ?out) \<le> 1"
    by (rule distinct_filter_le1)
  have md: "searchInterval ?n dvd route_coordinate_index x"
    using n(1) by (simp add: sample_zero)
  have sn: "place_id p \<in> seen_at nearby (route_coordinate_index x)"
    using n(2) x(2) by simp
  have s3: "length ?m \<le> 8 \<longrightarrow>
              filter (\<lambda>y. google_place_id y = place_id p) ?out = [x]"
  proof
    assume "length ?m \<le> 8"
    then have o: "?out = sort_key (\<lambda>p. - popularity_score p) ?m"
      unfolding out by simp
    have ds: "distinct (map google_place_id (sort_key (\<lambda>p. - popularity_score p) ?m))"
      by (rule distinct_map_sort_key[OF d])
    have xs: "x \<in> set (sort_key (\<lambda>p. - popularity_score p) ?m)"
      using x(1) by simp
    show "filter (\<lambda>y. google_place_id y = place_id p) ?out = [x]"
      using distinct_filter_single[OF ds xs] x(2) unfolding o by simp
  qed
  show ?thesis
    by (intro exI[of _ x] conjI f le md sn first s1 s2 s3)
qed

theorem dedup_first_seen_witness:
  "map route_coordinate_index
     (filter (\<lambda>y. google_place_id y = ''dup'')
        (discoverPOIsNearRoute True crowded [(0, 0), (1, 1)])) = []
   \<and> map route_coordinate_index
     (filter (\<lambda>y. google_place_id y = ''dup'') (searchLoop crowded 2 0 [])) = [0]"
proof -
  have m: "map google_place_id (searchLoop crowded 2 0 [])
             = [''p1'', ''p2'', ''p3'', ''p4'', ''p5'', ''p6'', ''p7'', ''p8'', ''dup'']"
    by (simp add: searchLoop_step searchLoop_stop searchAt_def searchInterval_def
        maxPOIsPerSearch_def crowded_def top_places_def top_place_def dup_place_def
        makePOI_def first_type_or_def or_zero_def score_top score_dup)
  have o: "map google_place_id (discoverPOIsNearRoute True crowded [(0, 0), (1, 1)])
             = [''p1'', ''p2'', ''p3'', ''p4'', ''p5'', ''p6'', ''p7'', ''p8'']"
    by (simp add: discoverPOIsNearRoute_def searchLoop_step searchLoop_stop searchAt_def
        searchInterval_def maxPOIsPerSearch_def crowded_def top_places_def top_place_def
        dup_place_def makePOI_def first_type_or_def or_zero_def score_top score_dup)
  have "''dup'' \<notin> set (map google_place_id
                  (discoverPOIsNearRoute True crowded [(0, 0), (1, 1)]))"
    unfolding o by simp
  then have "\<forall>y \<in> set (discoverPOIsNearRoute True crowded [(0, 0), (1, 1)]).
               google_place_id y \<noteq> ''dup''"
    by (metis imageI set_map)
  then have e: "filter (\<lambda>y. google_place_id y = ''dup'')
                  (discoverPOIsNearRoute True crowded [(0, 0), (1, 1)]) = []"
    by (simp add: filter_empty_conv)
  have h: "dup_place \<in> set (take maxPOIsPerSearch (top_places @ [dup_place]))"
    "dup_place \<in> set (take maxPOIsPerSearch [dup_place])"
    by (simp_all add: maxPOIsPerSearch_def top_places_def)
  have c: "crowded 0 = Some (top_places @ [dup_place])" "crowded 1 = Some [dup_place]"
    by (simp_all add: crowded_def)
  have sd: "searchInterval (length [(0, 0), (1, 1 :: real)]) dvd 0"
    "searchInterval (length [(0, 0), (1, 1 :: real)]) dvd 1"
    by (simp_all add: searchInterval_def)
  from dedup_first_seen[of 0 1 "[(0, 0), (1, 1 :: real)]", OF _ _ sd c h]
  obtain x where "filter (\<lambda>y. google_place_id y = place_id dup_place)
                    (searchLoop crowded (length [(0, 0), (1, 1 :: real)]) 0 []) = [x]"
    and "route_coordinate_index x \<le> 0"
    by auto
  then have "map route_coordinate_index
     (filter (\<lambda>y. google_place_id y = ''dup'') (searchLoop crowded 2 0 [])) = [0]"
    by (simp add: dup_place_def numeral_2_eq_2)
  then show ?thesis using e by simp
qed

section \<open>Properties of the route calculation\<close>

text \<open>
  C9. Whenever \<open>calculateScenicRoute\<close> returns a route for a request with a supplied,
  non-negative time-increase budget (in percent), the returned duration equals the
  baseline duration, the reported increase is 0 percent, and so the duration is at most
  the baseline duration times (1 + budget / 100): the function returns the baseline
  route and adds no waypoint. Durations are not negative.
\<close>

theorem scenic_route_within_budget:
  assumes "calculateScenicRoute hasApiKey baselineData startCoords endCoords prefs = RouteSuccess v"
    and "max_time_increase_percent prefs = Some budget" and "0 \<le> budget"
    and "0 \<le> baseline_time_seconds v"
  shows "estimated_time_seconds v = baseline_time_seconds v
       \<and> real_of_int (time_increase_percent v) \<le> budget
       \<and> real_of_int (estimated_time_seconds v)
            \<le> real_of_int (baseline_time_seconds v) * (1 + budget / 100)"
proof -
  have e: "estimated_time_seconds v = baseline_time_seconds v \<and> time_increase_percent v = 0"
    using assms(1)
    by (auto simp: calculateScenicRoute_def Let_def
             split: if_splits directions.splits list.splits)
  have "0 \<le> real_of_int (baseline_time_seconds v) * (budget / 100)"
    using assms(3,4) by simp
  then have "real_of_int (baseline_time_seconds v)
               \<le> real_of_int (baseline_time_seconds v) * (1 + budget / 100)"
    by (simp add: algebra_simps)
  then show ?thesis using e assms(3) by simp
qed

theorem scenic_route_within_budget_witness:
  "calculateScenicRoute True
     (DirectionsResponse ''OK''
        [\<lparr> legs = [\<lparr> duration_value = 1000, distance_value = 15000, steps = [] \<rparr>],
           overview_polyline = str ''_p~iF~ps|U'' \<rparr>])
     (37.4419, -122.1430) (37.3688, -122.0363)
     \<lparr> max_time_increase_percent = Some 20, interests = [] \<rparr>
   = RouteSuccess
       \<lparr> coordinates = decodePolyline (str ''_p~iF~ps|U''), total_distance_meters = 15000,
         estimated_time_seconds = 1000, baseline_time_seconds = 1000,
         time_increase_percent = 0, instructions = [], waypoints = [],
         route_path = str ''_p~iF~ps|U'' \<rparr>
   \<and> real_of_int (1000 :: int) \<le> real_of_int 1000 * (1 + 20 / 100)"
proof -
  let ?v = "\<lparr> coordinates = decodePolyline (str ''_p~iF~ps|U''), total_distance_meters = 15000,
         estimated_time_seconds = 1000, baseline_time_seconds = 1000,
         time_increase_percent = 0, instructions = [], waypoints = [],
         route_path = str ''_p~iF~ps|U'' \<rparr>"
  let ?prefs = "\<lparr> max_time_increase_percent = Some (20 :: real), interests = [] \<rparr>"
  have r: "calculateScenicRoute True
     (DirectionsResponse ''OK''
        [\<lparr> legs = [\<lparr> duration_value = 1000, distance_value = 15000, steps = [] \<rparr>],
           overview_polyline = str ''_p~iF~ps|U'' \<rparr>])
     (37.4419, -122.1430) (37.3688, -122.0363) ?prefs = RouteSuccess ?v"
    by (simp add: calculateScenicRoute_def convertGoogleInstructionsToMapKit_def)
  have b: "max_time_increase_percent ?prefs = Some 20" by simp
  show ?thesis
    using r scenic_route_within_budget[OF r b] by simp
qed

section \<open>Properties of the progress tracking\<close>

text \<open>
  C1 (as stated, refuted). When the route calculation fails, the handler writes status
  \<open>failed\<close> together with progress 0: the progress falls from 10 to 0 and is not frozen
  at its last value.
\<close>

theorem progress_reset_counterexample:
  "generate_route all_ok (RouteFailure ''No baseline route found'')
     = (500, [\<lparr> status = Processing, generation_progress = 10 \<rparr>,
              \<lparr> status = Failed, generation_progress = 0 \<rparr>])"
  by (simp add: generate_route_def all_ok_def db_update_def)

text \<open>
  C1 (amended). Along the history of the row, every write starts from a row in status
  \<open>processing\<close>, so no write leaves a terminal state; a write that sets status \<open>failed\<close>
  sets the progress to 0; and every other write leaves the progress at least as high as
  it was (10, 40, 70, 100). When the route calculation fails after the row was inserted
  and the update goes through, the row goes from (\<open>processing\<close>, 10) directly to
  (\<open>failed\<close>, 0).
\<close>

theorem progress_transitions:
  "(\<forall>(s, s') \<in> set (zip (snd (generate_route env routeData))
                         (tl (snd (generate_route env routeData)))).
      status s = Processing
      \<and> (status s' = Failed \<longrightarrow> generation_progress s' = 0)
      \<and> (status s' \<noteq> Failed \<longrightarrow> generation_progress s \<le> generation_progress s'))
   \<and> (method_is_post env \<and> has_locations env \<and> geocoded env \<and> insert_ok env
        \<and> failed_update_ok env \<longrightarrow>
      snd (generate_route env (RouteFailure msg))
        = [\<lparr> status = Processing, generation_progress = 10 \<rparr>,
           \<lparr> status = Failed, generation_progress = 0 \<rparr>])"
proof -
  have "\<forall>(s, s') \<in> set (zip (snd (generate_route env routeData))
                         (tl (snd (generate_route env routeData)))).
      status s = Processing
      \<and> (status s' = Failed \<longrightarrow> generation_progress s' = 0)
      \<and> (status s' \<noteq> Failed \<longrightarrow> generation_progress s \<le> generation_progress s')"
    by (cases routeData) (auto simp: generate_route_def db_update_def Let_def)
  moreover have "method_is_post env \<and> has_locations env \<and> geocoded env \<and> insert_ok env
        \<and> failed_update_ok env \<longrightarrow>
      snd (generate_route env (RouteFailure msg))
        = [\<lparr> status = Processing, generation_progress = 10 \<rparr>,
           \<lparr> status = Failed, generation_progress = 0 \<rparr>]"
    by (simp add: generate_route_def db_update_def)
  ultimately show ?thesis by blast
qed

theorem progress_transitions_witness:
  "(\<lparr> status = Processing, generation_progress = 10 \<rparr>,
    \<lparr> status = Failed, generation_progress = 0 \<rparr>)
     \<in> set (zip (snd (generate_route all_ok (RouteFailure ''No baseline route found'')))
                (tl (snd (generate_route all_ok (RouteFailure ''No baseline route found'')))))
   \<and> status \<lparr> status = Processing, generation_progress = 10 \<rparr> = Processing
   \<and> generation_progress \<lparr> status = Failed, generation_progress = 0 \<rparr> = 0"
proof -
  have m: "(\<lparr> status = Processing, generation_progress = 10 \<rparr>,
    \<lparr> status = Failed, generation_progress = 0 \<rparr>)
     \<in> set (zip (snd (generate_route all_ok (RouteFailure ''No baseline route found'')))
                (tl (snd (generate_route all_ok (RouteFailure ''No baseline route found'')))))"
    by (simp add: generate_route_def all_ok_def db_update_def)
  from bspec[OF conjunct1[OF progress_transitions] m] m show ?thesis by simp
qed

section \<open>Properties of the location validation\<close>

text \<open>
  For a stored route and a valid coordinate, when the call of \<open>is_location_on_route\<close>
  returns without error, the handler answers with a validation response, and \<open>on_route\<close>
  is true if and only if the distance of the point to the route path is at most the
  200 m that the handler passes as tolerance.
\<close>

lemma validate_location_on_route_iff:
  assumes "route_id requestData \<noteq> []"
    and "current_location requestData = Some (latitude, longitude)"
    and "-90 \<le> latitude" "latitude \<le> 90" "-180 \<le> longitude" "longitude \<le> 180"
    and "map_of routes (route_id requestData) = Some path"
    and "validation_rpc_ok"
  shows "\<exists>r. validateLocationOnRoute ST_Distance routes validation_rpc_ok distanceResult requestData
              = ValidationResponse r
           \<and> (on_route r \<longleftrightarrow> ST_Distance (latitude, longitude) path \<le> 200)"
  using assms
  by (simp add: validateLocationOnRoute_def is_location_on_route_def ST_DWithin_def)

text \<open>
  C8 (the code at a failing input). The route \<open>r1\<close> is stored with a two-point path and
  the valid point (37.5, -122.3), which does not lie on it, is queried. The call of
  \<open>calculate_distance_to_route\<close> returns no data. Whatever the distance of the point to
  the path is, the response reports the distance 0 and, as nearest point, the queried
  point itself, not a point of the path; \<open>on_route\<close> is decided by the tolerance of
  200 m.
\<close>

theorem validate_location_reports_no_distance:
  "validateLocationOnRoute ST_Distance
     [(''r1'', [(37.4419, -122.1430), (37.3688, -122.0363)])] True None
     \<lparr> route_id = ''r1'', current_location = Some (37.5, -122.3) \<rparr>
   = ValidationResponse
       \<lparr> on_route = (ST_Distance (37.5, -122.3)
                      [(37.4419, -122.1430), (37.3688, -122.0363)] \<le> 200),
         distance_from_route_meters = 0,
         nearest_point = (37.5, -122.3) \<rparr>"
  by (simp add: validateLocationOnRoute_def is_location_on_route_def ST_DWithin_def)

section \<open>The decoder inverts the encoder\<close>

lemma and31: "(b::int) AND 31 = b mod 32"
proof -
  have "b AND mask 5 = take_bit 5 b" by (simp add: take_bit_eq_mask)
  then show ?thesis by (simp add: take_bit_eq_mod mask_eq_exp_minus_1)
qed

lemma split5:
  "push_bit shift (word_of_int (v mod 32) :: 32 word)
     OR push_bit (shift + 5) (word_of_int (v div 32))
   = push_bit shift (word_of_int v)"
proof -
  have m: "v mod 32 = take_bit 5 v" by (simp add: take_bit_eq_mod)
  have d: "v div 32 = drop_bit 5 v" by (simp add: drop_bit_eq_div)
  have "push_bit shift (word_of_int (take_bit 5 v) :: 32 word)
     OR push_bit (shift + 5) (word_of_int (drop_bit 5 v))
   = push_bit shift (word_of_int v)"
  proof (rule bit_word_eqI)
    fix n :: nat
    assume "n < LENGTH(32)"
    have e: "\<not> n - shift < 5 \<Longrightarrow> 5 + (n - (shift + 5)) = n - shift" by linarith
    have f: "n - shift < 5 \<Longrightarrow> \<not> shift + 5 \<le> n" by linarith
    show "bit (push_bit shift (word_of_int (take_bit 5 v) :: 32 word)
              OR push_bit (shift + 5) (word_of_int (drop_bit 5 v))) n
          = bit (push_bit shift (word_of_int v :: 32 word)) n"
      using e f by (cases "n - shift < 5") (auto simp: bit_simps)
  qed
  then show ?thesis unfolding m d .
qed

lemma sint_small: "- (2 ^ 31) \<le> k \<Longrightarrow> k < 2 ^ 31 \<Longrightarrow> sint (word_of_int k :: 32 word) = k"
  by (simp add: sint_sbintrunc' signed_take_bit_int_eq_self)

lemma unzigzag_nonneg:
  assumes "0 \<le> d" "d < 2 ^ 30"
  shows "unzigzag (word_of_int (2 * d)) = d"
proof -
  let ?w = "word_of_int (2 * d) :: 32 word"
  have "even (2 * (word_of_int d :: 32 word))" by simp
  then have "(2 * (word_of_int d :: 32 word)) mod 2 = 0"
    by (rule iffD1[OF even_iff_mod_2_eq_zero])
  then have ev: "?w AND 1 = 0"
    by (simp add: and_one_eq)
  have s: "sint ?w = 2 * d" using assms by (intro sint_small) simp_all
  have "sint (signed_drop_bit 1 ?w) = d"
    unfolding sint_signed_drop_bit_eq s by (simp add: drop_bit_eq_div)
  then show ?thesis using ev by (simp add: unzigzag_def)
qed

lemma unzigzag_neg:
  assumes "d < 0" "- (2 ^ 30) \<le> d"
  shows "unzigzag (word_of_int (- (2 * d) - 1)) = d"
proof -
  let ?w = "word_of_int (- (2 * d) - 1) :: 32 word"
  have "odd (- (2 * (word_of_int d :: 32 word)) - 1)" by simp
  then have "(- (2 * (word_of_int d :: 32 word)) - 1) mod 2 = 1"
    by (rule iffD1[OF odd_iff_mod_2_eq_one])
  then have od: "?w AND 1 \<noteq> 0"
    by (simp add: and_one_eq)
  have s: "sint ?w = - (2 * d) - 1" using assms by (intro sint_small) simp_all
  have "sint (signed_drop_bit 1 ?w) = - d - 1"
    unfolding sint_signed_drop_bit_eq s by (simp add: drop_bit_eq_div)
  moreover have "sint (word_of_int (- d - 1) :: 32 word) = - d - 1"
    using assms by (intro sint_small) simp_all
  ultimately have "sint (signed_drop_bit 1 ?w) = sint (word_of_int (- d - 1) :: 32 word)"
    by (simp only:)
  then have "signed_drop_bit 1 ?w = word_of_int (- d - 1)"
    by (rule signed_word_eqI)
  then have "NOT (signed_drop_bit 1 ?w) = word_of_int d"
    by (simp add: not_eq_complement)
  moreover have "sint (word_of_int d :: 32 word) = d"
    using assms by (intro sint_small) simp_all
  ultimately show ?thesis using od by (simp add: unzigzag_def)
qed


lemma encodeChunks_nonempty: "encodeChunks v \<noteq> []"
  by (subst encodeChunks.simps) simp

lemma uint_code_unit: "0 \<le> k \<Longrightarrow> k < 65536 \<Longrightarrow> uint (word_of_int k :: 16 word) = k"
  by (simp add: uint_word_of_int)

lemma readDelta_encodeChunks:
  "0 \<le> v \<Longrightarrow> shift < 32 \<Longrightarrow> v < 2 ^ (32 - shift) \<Longrightarrow>
   readDelta (pre @ encodeChunks v @ post) (length pre) shift result
     = (length pre + length (encodeChunks v), result OR push_bit shift (word_of_int v))"
proof (induction v arbitrary: pre shift result rule: encodeChunks.induct)
  case (1 v)
  have sm: "shift mod 32 = shift" using "1.prems"(2) by simp
  show ?case
  proof (cases "v \<ge> 32")
    case True
    define c :: "16 word" where "c = word_of_int (v mod 32 + 32 + 63)"
    let ?r = "result OR push_bit shift (word_of_int (v mod 32))"
    have ec: "encodeChunks v = c # encodeChunks (v div 32)"
      unfolding c_def using True by (subst encodeChunks.simps) simp
    have "0 \<le> v mod 32" "v mod 32 < 32" by simp_all
    then have "0 \<le> v mod 32 + 32 + 63" "v mod 32 + 32 + 63 < 65536" by linarith+
    then have uc: "uint c = v mod 32 + 32 + 63"
      unfolding c_def by (rule uint_code_unit)
    have cc: "charCodeAt (pre @ encodeChunks v @ post) (length pre) = Some (v mod 32 + 32 + 63)"
      by (simp add: charCodeAt_def ec uc)
    have gt: "5 < 32 - shift"
    proof (rule ccontr)
      assume "\<not> 5 < 32 - shift"
      then have "32 - shift \<le> 5" by simp
      then have "(2::int) ^ (32 - shift) \<le> 2 ^ 5" by (intro power_increasing) simp_all
      then show False using True "1.prems"(3) by simp
    qed
    then have s5: "shift + 5 < 32" by simp
    have "32 - shift = 5 + (32 - (shift + 5))" using gt by simp
    then have "(2::int) ^ (32 - shift) = 2 ^ 5 * 2 ^ (32 - (shift + 5))"
      by (metis power_add)
    then have "v < 32 * 2 ^ (32 - (shift + 5))" using "1.prems"(3) by simp
    then have dv: "v div 32 < 2 ^ (32 - (shift + 5))"
      by (simp add: div_less_iff_less_mult mult.commute)
    have nn: "0 \<le> v div 32" using "1.prems"(1) by simp
    from "1.IH"[OF True nn s5 dv, of "pre @ [c]" ?r]
    have ih: "readDelta (pre @ encodeChunks v @ post) (length pre + 1) (shift + 5) ?r
              = (length pre + length (encodeChunks v),
                 ?r OR push_bit (shift + 5) (word_of_int (v div 32)))"
      by (simp add: ec)
    have b: "(32 + v mod 32) AND 31 = v mod 32"
      by (simp add: and31)
    have "readDelta (pre @ encodeChunks v @ post) (length pre) shift result
          = readDelta (pre @ encodeChunks v @ post) (length pre + 1) (shift + 5) ?r"
      by (subst readDelta.simps) (simp add: cc Let_def sm b)
    then show ?thesis using ih split5[of shift v] by (simp add: or.assoc)
  next
    case False
    define c :: "16 word" where "c = word_of_int (v + 63)"
    have ec: "encodeChunks v = [c]"
      unfolding c_def using False by (subst encodeChunks.simps) simp
    have "0 \<le> v + 63" "v + 63 < 65536" using False "1.prems"(1) by linarith+
    then have uc: "uint c = v + 63"
      unfolding c_def by (rule uint_code_unit)
    have cc: "charCodeAt (pre @ encodeChunks v @ post) (length pre) = Some (v + 63)"
      by (simp add: charCodeAt_def ec uc)
    have len: "length (encodeChunks v) = 1" by (simp add: ec)
    have vm: "v mod 32 = v" using False "1.prems"(1) by simp
    have "readDelta (pre @ encodeChunks v @ post) (length pre) shift result
            = (length pre + 1, result OR push_bit shift (word_of_int v))"
      using False by (subst readDelta.simps) (simp add: cc Let_def and31 sm vm)
    then show ?thesis by (simp add: len)
  qed
qed

lemma readDelta_encodeSigned:
  assumes "- (2 ^ 30) \<le> d" "d < 2 ^ 30"
  shows "fst (readDelta (pre @ encodeSigned d @ post) (length pre) 0 0)
           = length pre + length (encodeSigned d)
       \<and> unzigzag (snd (readDelta (pre @ encodeSigned d @ post) (length pre) 0 0)) = d"
proof (cases "d < 0")
  case True
  have "readDelta (pre @ encodeChunks (- (2 * d) - 1) @ post) (length pre) 0 0
          = (length pre + length (encodeChunks (- (2 * d) - 1)),
             0 OR push_bit 0 (word_of_int (- (2 * d) - 1)))"
    using True assms by (intro readDelta_encodeChunks) simp_all
  then show ?thesis using True unzigzag_neg[OF True assms(1)] by (simp add: encodeSigned_def)
next
  case False
  then have nn: "0 \<le> d" by simp
  have "readDelta (pre @ encodeChunks (2 * d) @ post) (length pre) 0 0
          = (length pre + length (encodeChunks (2 * d)),
             0 OR push_bit 0 (word_of_int (2 * d)))"
    using nn assms by (intro readDelta_encodeChunks) simp_all
  then show ?thesis using False unzigzag_nonneg[OF nn assms(2)] by (simp add: encodeSigned_def)
qed

lemma encodeSigned_nonempty: "encodeSigned d \<noteq> []"
  by (simp add: encodeSigned_def encodeChunks_nonempty)

lemma decodeStep_encoded:
  assumes "- (2 ^ 30) \<le> a" "a < 2 ^ 30" "- (2 ^ 30) \<le> b" "b < 2 ^ 30"
  shows "decodeStep (pre @ encodeSigned a @ encodeSigned b @ post) (length pre, lat, lng)
         = (length pre + length (encodeSigned a) + length (encodeSigned b), lat + a, lng + b)"
proof -
  obtain i1 r1 where r1: "readDelta (pre @ encodeSigned a @ encodeSigned b @ post) (length pre) 0 0 = (i1, r1)"
    by fastforce
  have a1: "i1 = length pre + length (encodeSigned a) \<and> unzigzag r1 = a"
    using readDelta_encodeSigned[OF assms(1,2), of pre "encodeSigned b @ post"] r1 by simp
  obtain i2 r2 where r2: "readDelta (pre @ encodeSigned a @ encodeSigned b @ post) i1 0 0 = (i2, r2)"
    by fastforce
  have r2': "readDelta (pre @ encodeSigned a @ encodeSigned b @ post)
               (length pre + length (encodeSigned a)) 0 0 = (i2, r2)"
    using r2 a1 by simp
  have a2: "i2 = length pre + length (encodeSigned a) + length (encodeSigned b) \<and> unzigzag r2 = b"
    using readDelta_encodeSigned[OF assms(3,4), of "pre @ encodeSigned a" post] r2' by simp
  show ?thesis using a1 a2 by (simp add: decodeStep_def r1 r2')
qed

lemma decodeLoop_encodeFrom:
  "\<forall>(a, b) \<in> set ps. \<bar>a\<bar> < 2 ^ 29 \<and> \<bar>b\<bar> < 2 ^ 29 \<Longrightarrow> \<bar>lat\<bar> < 2 ^ 29 \<Longrightarrow> \<bar>lng\<bar> < 2 ^ 29 \<Longrightarrow>
   decodeLoop (pre @ encodeFrom lat lng ps) (length pre) lat lng acc
     = acc @ map to_degrees ps"
proof (induction ps arbitrary: pre lat lng acc)
  case Nil
  show ?case by (subst decodeLoop.simps) simp
next
  case (Cons p ps)
  obtain a b where p: "p = (a, b)" by fastforce
  have ba: "\<bar>a\<bar> < 2 ^ 29" "\<bar>b\<bar> < 2 ^ 29" using Cons.prems(1) p by auto
  have rest: "\<forall>(a, b) \<in> set ps. \<bar>a\<bar> < 2 ^ 29 \<and> \<bar>b\<bar> < 2 ^ 29" using Cons.prems(1) by simp
  let ?e1 = "encodeSigned (a - lat)" and ?e2 = "encodeSigned (b - lng)"
  let ?s = "pre @ encodeFrom lat lng (p # ps)"
  have s: "?s = pre @ ?e1 @ ?e2 @ encodeFrom a b ps" by (simp add: p)
  have st: "decodeStep ?s (length pre, lat, lng)
         = (length pre + length ?e1 + length ?e2, a, b)"
    unfolding s using decodeStep_encoded[of "a - lat" "b - lng" pre "encodeFrom a b ps" lat lng]
      ba Cons.prems(2,3) by simp
  have lt: "length pre < length ?s" using encodeSigned_nonempty[of "a - lat"] by (simp add: s)
  have "decodeLoop ?s (length pre) lat lng acc
        = decodeLoop ?s (length pre + length ?e1 + length ?e2) a b
            (acc @ [(real_of_int a / 100000, real_of_int b / 100000)])"
    using lt st by (subst decodeLoop.simps) simp
  also have "\<dots> = decodeLoop ((pre @ ?e1 @ ?e2) @ encodeFrom a b ps) (length (pre @ ?e1 @ ?e2)) a b
            (acc @ [(real_of_int a / 100000, real_of_int b / 100000)])"
    by (simp add: s add.assoc)
  also have "\<dots> = (acc @ [(real_of_int a / 100000, real_of_int b / 100000)]) @ map to_degrees ps"
    by (rule Cons.IH[OF rest ba])
  finally show ?case by (simp add: p to_degrees_def)
qed

text \<open>
  C5. For every path whose coordinates lie on the 1e-5 grid and are valid coordinates
  (latitude in [-90, 90], longitude in [-180, 180]), decoding the encoded path gives the
  path back.
\<close>

theorem decode_encode_roundtrip:
  assumes "\<forall>(lat, lng) \<in> set p. on_grid lat \<and> on_grid lng \<and> \<bar>lat\<bar> \<le> 90 \<and> \<bar>lng\<bar> \<le> 180"
  shows "decodePolyline (encodePolyline p) = p"
proof -
  let ?q = "map (\<lambda>(a, b). (round (a * 100000), round (b * 100000))) p"
  have b: "\<forall>(a, b) \<in> set ?q. \<bar>a\<bar> < 2 ^ 29 \<and> \<bar>b\<bar> < 2 ^ 29"
  proof (clarsimp)
    fix x y assume "(x, y) \<in> set p"
    then have h: "on_grid x" "on_grid y" "\<bar>x\<bar> \<le> 90" "\<bar>y\<bar> \<le> 180" using assms by auto
    have "\<bar>real_of_int (round (x * 100000))\<bar> \<le> 9000000" using h(1,3) by (simp add: on_grid_def)
    then have 1: "\<bar>round (x * 100000)\<bar> < 536870912" by linarith
    have "\<bar>real_of_int (round (y * 100000))\<bar> \<le> 18000000" using h(2,4) by (simp add: on_grid_def)
    then have 2: "\<bar>round (y * 100000)\<bar> < 536870912" by linarith
    show "\<bar>round (x * 100000)\<bar> < 536870912 \<and> \<bar>round (y * 100000)\<bar> < 536870912"
      using 1 2 by simp
  qed
  have "decodeLoop ([] @ encodeFrom 0 0 ?q) (length ([]::js_string)) 0 0 [] = [] @ map to_degrees ?q"
    by (rule decodeLoop_encodeFrom[OF b]) simp_all
  then have "decodePolyline (encodePolyline p) = map to_degrees ?q"
    by (simp add: decodePolyline_def encodePolyline_def)
  also have "\<dots> = p"
  proof -
    have "map to_degrees ?q = map (\<lambda>x. x) p"
      unfolding map_map
    proof (rule map_cong[OF refl])
      fix z assume z: "z \<in> set p"
      obtain x y where xy: "z = (x, y)" by fastforce
      then have "on_grid x" "on_grid y" using assms z by auto
      then show "(to_degrees \<circ> (\<lambda>(a, b). (round (a * 100000), round (b * 100000)))) z = z"
        by (simp add: xy to_degrees_def on_grid_def)
    qed
    then show ?thesis by simp
  qed
  finally show ?thesis .
qed

theorem decode_encode_roundtrip_witness:
  "on_grid 38.5 \<and> on_grid (-120.2) \<and> \<bar>38.5 :: real\<bar> \<le> 90 \<and> \<bar>-120.2 :: real\<bar> \<le> 180
   \<and> on_grid 40.7 \<and> on_grid (-120.95) \<and> \<bar>40.7 :: real\<bar> \<le> 90 \<and> \<bar>-120.95 :: real\<bar> \<le> 180
   \<and> decodePolyline (encodePolyline [(38.5, -120.2), (40.7, -120.95)])
       = [(38.5, -120.2), (40.7, -120.95)]"
proof -
  have h: "\<forall>(lat, lng) \<in> set [(38.5, -120.2), (40.7, -120.95 :: real)].
      on_grid lat \<and> on_grid lng \<and> \<bar>lat\<bar> \<le> 90 \<and> \<bar>lng\<bar> \<le> 180"
    by (simp add: on_grid_def)
  show ?thesis using h decode_encode_roundtrip[OF h] by simp
qed

end
